theory Spec2Isabelle
  imports Complex_Main "HOL-Library.Sublist"
begin

section \<open>Expense tracker: data model\<close>

text \<open>
  The source holds three versions of the expense screen. They are kept apart by a
  suffix: \<open>_v1\<close> is the screen with \<open>saveExpense\<close> and the callback-style
  database, \<open>_v2\<close> the screen whose aggregator falls back to the label
  \<open>Uncategorized\<close> and sums the record list directly, \<open>_v3\<close> the screen with the
  bar chart, the fallback label \<open>Other\<close> and a total taken from the per-category
  mapping.

  Modelling conventions, valid for the whole development:
  \<^item> A number is a double: \<open>NaN\<close>, an infinity, or a finite value held as the rational
    it denotes. Every arithmetic result is rounded to the nearest double, ties to even,
    with overflow to infinity and gradual underflow. The zero \<open>-0\<close> is not told apart
    from \<open>0\<close>.
  \<^item> A string is a list of 8-bit characters, read as code units.
  \<^item> A plain object used as a dictionary has its own properties and, behind them, the
    properties it inherits from \<open>Object.prototype\<close>.
  \<^item> The local time zone is a fixed offset from UTC (no daylight-saving change).
\<close>

subsection \<open>Numbers\<close>

datatype jsnum = NaN | Fin rat | PInf | NInf

text \<open>
  Rounding a rational to the nearest double. \<open>floor_log2 n\<close> is the position of the
  leading bit of \<open>n \<ge> 1\<close>, \<open>exponent_of a\<close> the binary exponent \<open>e\<close> of \<open>a > 0\<close>
  (\<open>2^e \<le> a < 2^(e+1)\<close>). A double has 53 significant bits, its exponent is at
  least \<open>-1022\<close> (below that the spacing stays \<open>2^-1074\<close>), and a result that
  reaches \<open>overflow_limit\<close> is an infinity.
\<close>

function floor_log2 :: "int \<Rightarrow> int" where
  "floor_log2 n = (if n \<le> 1 then 0 else 1 + floor_log2 (n div 2))"
  by pat_completeness auto
termination
  by (relation "measure nat") auto

definition pow2 :: "int \<Rightarrow> rat" where
  "pow2 k = (if 0 \<le> k then 2 ^ nat k else 1 / 2 ^ nat (- k))"

definition exponent_of :: "rat \<Rightarrow> int" where
  "exponent_of a =
     (if 1 \<le> a then floor_log2 \<lfloor>a\<rfloor> else - (floor_log2 (\<lceil>1 / a\<rceil> - 1) + 1))"

definition round_half_even :: "rat \<Rightarrow> int" where
  "round_half_even q =
     (let f = \<lfloor>q\<rfloor>; d = q - of_int f
      in if d < 1 / 2 then f else if 1 / 2 < d then f + 1 else if even f then f else f + 1)"

definition overflow_limit :: rat where
  "overflow_limit = pow2 1024"

definition binary64 :: "rat \<Rightarrow> jsnum" where
  "binary64 x =
     (if x = 0 then Fin 0
      else
        (let a = \<bar>x\<bar>;
             e = max (exponent_of a) (- 1022);
             u = pow2 (e - 52);
             r = of_int (round_half_even (a / u)) * u
         in if overflow_limit \<le> r then (if 0 < x then PInf else NInf)
            else Fin (if 0 < x then r else - r)))"

text \<open>The binary \<open>+\<close> of the language on two numbers.\<close>

fun jsadd :: "jsnum \<Rightarrow> jsnum \<Rightarrow> jsnum" where
  "jsadd NaN _ = NaN"
| "jsadd _ NaN = NaN"
| "jsadd PInf NInf = NaN"
| "jsadd NInf PInf = NaN"
| "jsadd PInf _ = PInf"
| "jsadd _ PInf = PInf"
| "jsadd NInf _ = NInf"
| "jsadd _ NInf = NInf"
| "jsadd (Fin a) (Fin b) = binary64 (a + b)"

text \<open>\<open>isNaN(x)\<close> and \<open>x <= 0\<close> on a number.\<close>

fun isNaN :: "jsnum \<Rightarrow> bool" where
  "isNaN NaN = True"
| "isNaN _ = False"

fun le_zero :: "jsnum \<Rightarrow> bool" where
  "le_zero NaN = False"
| "le_zero (Fin a) = (a \<le> 0)"
| "le_zero PInf = False"
| "le_zero NInf = True"

text \<open>Truthiness of a number: \<open>0\<close> and \<open>NaN\<close> are falsy.\<close>

fun truthy :: "jsnum \<Rightarrow> bool" where
  "truthy NaN = False"
| "truthy (Fin a) = (a \<noteq> 0)"
| "truthy PInf = True"
| "truthy NInf = True"

text \<open>
  A value read from a numeric column: a number, or \<open>None\<close> for \<open>null\<close>.
  \<open>or_zero v\<close> is the expression \<open>v || 0\<close> on such a value.
\<close>

fun or_zero :: "jsnum option \<Rightarrow> jsnum" where
  "or_zero None = Fin 0"
| "or_zero (Some v) = (if truthy v then v else Fin 0)"

text \<open>\<open>Number(v)\<close> for a value that is \<open>null\<close> or a number: \<open>Number(null)\<close> is \<open>0\<close>.\<close>

fun Number_of :: "jsnum option \<Rightarrow> jsnum" where
  "Number_of None = Fin 0"
| "Number_of (Some v) = v"

subsection \<open>Strings\<close>

definition isDigit :: "char \<Rightarrow> bool" where
  "isDigit c = ((48::int) \<le> of_char c \<and> of_char c \<le> (57::int))"

definition digit_val :: "char \<Rightarrow> int" where
  "digit_val c = of_char c - (48::int)"

definition digits_val :: "string \<Rightarrow> int" where
  "digits_val s = foldl (\<lambda>a c. 10 * a + digit_val c) 0 s"

text \<open>White space as \<open>trim\<close> and the numeric parsers see it, within 8-bit code units:
  TAB, LF, VT, FF, CR, space and the no-break space.\<close>

definition isWhiteSpace :: "char \<Rightarrow> bool" where
  "isWhiteSpace c = (of_char c \<in> {9, 10, 11, 12, 13, 32, 160 :: int})"

definition trim :: "string \<Rightarrow> string" where
  "trim s = rev (dropWhile isWhiteSpace (rev (dropWhile isWhiteSpace s)))"

subsection \<open>Expense records\<close>

text \<open>A row of the table \<open>expenses\<close> as the screen receives it. The amount column may
  deliver \<open>null\<close>; so may the text columns.\<close>

record expense =
  e_id :: int
  e_amount :: "jsnum option"
  e_category :: "string option"
  e_note :: "string option"
  e_date :: "string option"

section \<open>Aggregator\<close>

subsection \<open>Values held in a dictionary\<close>

text \<open>
  What a key of the totals object can yield: a number; a string that came out of
  \<open>+\<close> with an operand that is not a number (\<open>Text\<close>; such a string is never
  empty, and its characters are not modelled); or a function or object inherited
  from \<open>Object.prototype\<close> (\<open>Builtin\<close>). \<open>val_or_zero v\<close> is \<open>v || 0\<close> for a
  looked-up value, where \<open>None\<close> is \<open>undefined\<close>; \<open>val_add\<close> is the binary \<open>+\<close>,
  which concatenates strings as soon as one operand is not a number.
\<close>

datatype jsval = Num jsnum | Text | Builtin

fun val_or_zero :: "jsval option \<Rightarrow> jsval" where
  "val_or_zero None = Num (Fin 0)"
| "val_or_zero (Some (Num v)) = (if truthy v then Num v else Num (Fin 0))"
| "val_or_zero (Some Text) = Text"
| "val_or_zero (Some Builtin) = Builtin"

fun val_add :: "jsval \<Rightarrow> jsval \<Rightarrow> jsval" where
  "val_add (Num a) (Num b) = Num (jsadd a b)"
| "val_add _ _ = Text"

subsection \<open>Objects used as dictionaries\<close>

text \<open>
  An object created by \<open>{}\<close> is the list of its own properties in creation order.
  Reading a key yields the own property if there is one, else the property inherited
  from \<open>Object.prototype\<close> if the key names one, else \<open>undefined\<close>. Assigning a
  number or a string to \<open>__proto__\<close> changes nothing; assigning to any other key
  sets the own property: an existing key keeps its place, a new key goes to the end.
  Enumeration (\<open>Object.keys\<close>, \<open>Object.values\<close>, \<open>Object.entries\<close>) lists the own
  keys that are array indices first, in ascending numeric order, then the other own
  keys in creation order.
\<close>

type_synonym jsobj = "(string \<times> jsval) list"

definition inherited_names :: "string list" where
  "inherited_names =
     [''constructor'', ''hasOwnProperty'', ''isPrototypeOf'', ''propertyIsEnumerable'',
      ''toLocaleString'', ''toString'', ''valueOf'', ''__proto__'', ''__defineGetter__'',
      ''__defineSetter__'', ''__lookupGetter__'', ''__lookupSetter__'']"

fun own_get :: "jsobj \<Rightarrow> string \<Rightarrow> jsval option" where
  "own_get [] k = None"
| "own_get ((k', v) # ps) k = (if k' = k then Some v else own_get ps k)"

fun own_set :: "jsobj \<Rightarrow> string \<Rightarrow> jsval \<Rightarrow> jsobj" where
  "own_set [] k v = [(k, v)]"
| "own_set ((k', v') # ps) k v = (if k' = k then (k, v) # ps else (k', v') # own_set ps k v)"

definition obj_get :: "jsobj \<Rightarrow> string \<Rightarrow> jsval option" where
  "obj_get obj k =
     (case own_get obj k of
        Some v \<Rightarrow> Some v
      | None \<Rightarrow> if k \<in> set inherited_names then Some Builtin else None)"

definition obj_set :: "jsobj \<Rightarrow> string \<Rightarrow> jsval \<Rightarrow> jsobj" where
  "obj_set obj k v = (if k = ''__proto__'' then obj else own_set obj k v)"

text \<open>An array index is the canonical decimal form of an integer from \<open>0\<close> to \<open>2^32 - 2\<close>.\<close>

definition isArrayIndex :: "string \<Rightarrow> bool" where
  "isArrayIndex s =
     (s \<noteq> [] \<and> list_all isDigit s \<and> (s = ''0'' \<or> hd s \<noteq> CHR ''0'') \<and>
      digits_val s \<le> 4294967294)"

definition Object_entries :: "jsobj \<Rightarrow> (string \<times> jsval) list" where
  "Object_entries obj =
     sort_key (\<lambda>p. digits_val (fst p)) (filter (\<lambda>p. isArrayIndex (fst p)) obj) @
     filter (\<lambda>p. \<not> isArrayIndex (fst p)) obj"

definition Object_keys :: "jsobj \<Rightarrow> string list" where
  "Object_keys obj = map fst (Object_entries obj)"

definition Object_values :: "jsobj \<Rightarrow> jsval list" where
  "Object_values obj = map snd (Object_entries obj)"

subsection \<open>Totals, second version of the screen\<close>


text \<open>\<open>Number(e.amount || 0)\<close>\<close>

definition amt_v2 :: "expense \<Rightarrow> jsnum" where
  "amt_v2 e = or_zero (e_amount e)"

definition totalSpending_v2 :: "expense list \<Rightarrow> jsnum" where
  "totalSpending_v2 filteredExpenses = foldl (\<lambda>sum e. jsadd sum (amt_v2 e)) (Fin 0) filteredExpenses"


subsection \<open>Totals, third version of the screen\<close>

text \<open>\<open>e.category || "Other"\<close>\<close>

definition cat_v3 :: "expense \<Rightarrow> string" where
  "cat_v3 e = (case e_category e of None \<Rightarrow> ''Other''
                | Some c \<Rightarrow> if c = [] then ''Other'' else c)"

text \<open>\<open>Number(e.amount)\<close>\<close>

definition amt_v3 :: "expense \<Rightarrow> jsnum" where
  "amt_v3 e = Number_of (e_amount e)"

definition totalsByCategory_v3 :: "expense list \<Rightarrow> jsobj" where
  "totalsByCategory_v3 filteredExpenses =
     foldl (\<lambda>m e. obj_set m (cat_v3 e)
                     (val_add (val_or_zero (obj_get m (cat_v3 e))) (Num (amt_v3 e))))
       [] filteredExpenses"

text \<open>\<open>Object.values(totalsByCategory).reduce((sum, n) => sum + n, 0)\<close>\<close>

definition totalSpending_v3 :: "expense list \<Rightarrow> jsval" where
  "totalSpending_v3 filteredExpenses =
     foldl (\<lambda>sum n. val_add sum n) (Num (Fin 0))
       (Object_values (totalsByCategory_v3 filteredExpenses))"

section \<open>Calendar and dates\<close>

subsection \<open>Day numbers and years\<close>

text \<open>
  Time values are milliseconds since 1970-01-01T00:00:00Z, as integers. The calendar
  functions are those of the language standard: \<open>Day\<close>, \<open>TimeWithinDay\<close>,
  \<open>DayFromYear\<close>, \<open>YearFromTime\<close>, \<open>MonthFromTime\<close> (January is \<open>0\<close>),
  \<open>DateFromTime\<close>, \<open>WeekDay\<close> (Sunday is \<open>0\<close>), \<open>MakeTime\<close>, \<open>MakeDay\<close>,
  \<open>MakeDate\<close> and \<open>TimeClip\<close>. Integer division rounds down.
\<close>

definition msPerDay :: int where
  "msPerDay = 86400000"

definition Day :: "int \<Rightarrow> int" where
  "Day t = t div msPerDay"

definition TimeWithinDay :: "int \<Rightarrow> int" where
  "TimeWithinDay t = t mod msPerDay"

definition DayFromYear :: "int \<Rightarrow> int" where
  "DayFromYear y =
     365 * (y - 1970) + (y - 1969) div 4 - (y - 1901) div 100 + (y - 1601) div 400"

definition DaysInYear :: "int \<Rightarrow> int" where
  "DaysInYear y =
     (if y mod 4 \<noteq> 0 then 365 else if y mod 100 \<noteq> 0 then 366
      else if y mod 400 \<noteq> 0 then 365 else 366)"

text \<open>
  The year of a day number is the largest \<open>y\<close> with \<open>DayFromYear y \<le> d\<close>. It is
  found by stepping up from a year that is not after it.
\<close>

function year_search :: "int \<Rightarrow> int \<Rightarrow> int" where
  "year_search d y = (if DayFromYear (y + 1) \<le> d then year_search d (y + 1) else y)"
  by pat_completeness auto
termination
  by (relation "measure (\<lambda>(d, y). nat (d - DayFromYear (y + 1) + 1))")
     (auto simp: DayFromYear_def)

definition YearFromDay :: "int \<Rightarrow> int" where
  "YearFromDay d = year_search d (1970 + (if 0 \<le> d then d div 366 else d div 365))"

definition YearFromTime :: "int \<Rightarrow> int" where
  "YearFromTime t = YearFromDay (Day t)"

definition InLeapYear :: "int \<Rightarrow> int" where
  "InLeapYear t = (if DaysInYear (YearFromTime t) = 366 then 1 else 0)"

definition DayWithinYear :: "int \<Rightarrow> int" where
  "DayWithinYear t = Day t - DayFromYear (YearFromTime t)"

subsection \<open>Months and days of the month\<close>

text \<open>\<open>month_start m l\<close> is the day within the year on which month \<open>m\<close> begins,
  in a year with leap indicator \<open>l\<close>.\<close>

definition month_start :: "int \<Rightarrow> int \<Rightarrow> int" where
  "month_start m l =
     (if m = 0 then 0 else if m = 1 then 31 else if m = 2 then 59 + l
      else if m = 3 then 90 + l else if m = 4 then 120 + l else if m = 5 then 151 + l
      else if m = 6 then 181 + l else if m = 7 then 212 + l else if m = 8 then 243 + l
      else if m = 9 then 273 + l else if m = 10 then 304 + l else 334 + l)"

definition MonthFromTime :: "int \<Rightarrow> int" where
  "MonthFromTime t =
     (let d = DayWithinYear t; l = InLeapYear t in
      if d < 31 then 0 else if d < 59 + l then 1 else if d < 90 + l then 2
      else if d < 120 + l then 3 else if d < 151 + l then 4 else if d < 181 + l then 5
      else if d < 212 + l then 6 else if d < 243 + l then 7 else if d < 273 + l then 8
      else if d < 304 + l then 9 else if d < 334 + l then 10 else 11)"

definition DateFromTime :: "int \<Rightarrow> int" where
  "DateFromTime t = DayWithinYear t - month_start (MonthFromTime t) (InLeapYear t) + 1"

definition WeekDay :: "int \<Rightarrow> int" where
  "WeekDay t = (Day t + 4) mod 7"

definition MakeTime :: "int \<Rightarrow> int \<Rightarrow> int \<Rightarrow> int \<Rightarrow> int" where
  "MakeTime h m s milli = h * 3600000 + m * 60000 + s * 1000 + milli"

definition MakeDay :: "int \<Rightarrow> int \<Rightarrow> int \<Rightarrow> int" where
  "MakeDay year month dt =
     (let ym = year + month div 12; mn = month mod 12 in
      DayFromYear ym + month_start mn (if DaysInYear ym = 366 then 1 else 0) + dt - 1)"

definition MakeDate :: "int \<Rightarrow> int \<Rightarrow> int" where
  "MakeDate day time = day * msPerDay + time"

definition TimeClip :: "int \<Rightarrow> int option" where
  "TimeClip t = (if \<bar>t\<bar> \<le> 8640000000000000 then Some t else None)"

subsection \<open>The platform\<close>

text \<open>
  What the screen takes from its platform: the parser behind \<open>new Date(string)\<close>
  (\<open>None\<close> is an invalid date), the offset of local time from UTC in milliseconds, and
  the clock reading behind \<open>new Date()\<close>.
\<close>

record platform =
  Date_parse :: "string \<Rightarrow> int option"
  LocalTZA :: int
  Date_now :: int

definition LocalTime :: "platform \<Rightarrow> int \<Rightarrow> int" where
  "LocalTime P t = t + LocalTZA P"

definition UTC :: "platform \<Rightarrow> int \<Rightarrow> int" where
  "UTC P t = t - LocalTZA P"

subsection \<open>Date objects\<close>

text \<open>A date object is its time value; \<open>None\<close> is the invalid date, whose getters
  return \<open>NaN\<close>.\<close>

type_synonym jsdate = "int option"

definition getFullYear :: "platform \<Rightarrow> jsdate \<Rightarrow> int option" where
  "getFullYear P d = map_option (\<lambda>t. YearFromTime (LocalTime P t)) d"

definition getMonth :: "platform \<Rightarrow> jsdate \<Rightarrow> int option" where
  "getMonth P d = map_option (\<lambda>t. MonthFromTime (LocalTime P t)) d"

definition getDate :: "platform \<Rightarrow> jsdate \<Rightarrow> int option" where
  "getDate P d = map_option (\<lambda>t. DateFromTime (LocalTime P t)) d"

definition getDay :: "platform \<Rightarrow> jsdate \<Rightarrow> int option" where
  "getDay P d = map_option (\<lambda>t. WeekDay (LocalTime P t)) d"

text \<open>\<open>d.setDate(n)\<close> and \<open>d.setHours(h, m, s, ms)\<close>, returning the changed date;
  a \<open>NaN\<close> argument or an invalid date gives the invalid date.\<close>

definition setDate :: "platform \<Rightarrow> jsdate \<Rightarrow> int option \<Rightarrow> jsdate" where
  "setDate P d n =
     (case (d, n) of
        (Some t, Some dt) \<Rightarrow>
          (let lt = LocalTime P t in
           TimeClip (UTC P (MakeDate (MakeDay (YearFromTime lt) (MonthFromTime lt) dt)
                                     (TimeWithinDay lt))))
      | _ \<Rightarrow> None)"

definition setHours :: "platform \<Rightarrow> jsdate \<Rightarrow> int \<Rightarrow> int \<Rightarrow> int \<Rightarrow> int \<Rightarrow> jsdate" where
  "setHours P d h m s milli =
     (case d of
        Some t \<Rightarrow> TimeClip (UTC P (MakeDate (Day (LocalTime P t)) (MakeTime h m s milli)))
      | None \<Rightarrow> None)"

text \<open>Relational and strict-equality operators on possibly-\<open>NaN\<close> integers.\<close>

fun js_ge :: "int option \<Rightarrow> int option \<Rightarrow> bool" where
  "js_ge (Some a) (Some b) = (a \<ge> b)"
| "js_ge _ _ = False"

fun js_le :: "int option \<Rightarrow> int option \<Rightarrow> bool" where
  "js_le (Some a) (Some b) = (a \<le> b)"
| "js_le _ _ = False"

fun strict_eq :: "int option \<Rightarrow> int option \<Rightarrow> bool" where
  "strict_eq (Some a) (Some b) = (a = b)"
| "strict_eq _ _ = False"

fun js_minus :: "int option \<Rightarrow> int option \<Rightarrow> int option" where
  "js_minus (Some a) (Some b) = Some (a - b)"
| "js_minus _ _ = None"

fun js_plus :: "int option \<Rightarrow> int option \<Rightarrow> int option" where
  "js_plus (Some a) (Some b) = Some (a + b)"
| "js_plus _ _ = None"

text \<open>\<open>new Date()\<close>\<close>

definition new_Date :: "platform \<Rightarrow> jsdate" where
  "new_Date P = TimeClip (Date_now P)"

section \<open>Filter classifier\<close>

text \<open>The three values of \<open>FILTERS\<close>.\<close>

datatype filter_mode = FILTER_ALL | FILTER_WEEK | FILTER_MONTH

subsection \<open>Second version of the screen\<close>

definition isInCurrentWeek_v2 :: "platform \<Rightarrow> string option \<Rightarrow> bool" where
  "isInCurrentWeek_v2 P dateStr =
     (case dateStr of None \<Rightarrow> False
      | Some s \<Rightarrow>
         if s = [] then False
         else (let d = Date_parse P s in
           if d = None then False
           else (let now = new_Date P;
                     dayOfWeek = map_option (\<lambda>w. (w + 6) mod 7) (getDay P now);
                     monday = setHours P (setDate P now (js_minus (getDate P now) dayOfWeek)) 0 0 0 0;
                     sunday = setHours P (setDate P monday (js_plus (getDate P monday) (Some 6)))
                                23 59 59 999
                 in js_ge d monday \<and> js_le d sunday)))"

definition isInCurrentMonth_v2 :: "platform \<Rightarrow> string option \<Rightarrow> bool" where
  "isInCurrentMonth_v2 P dateStr =
     (case dateStr of None \<Rightarrow> False
      | Some s \<Rightarrow>
         if s = [] then False
         else (let d = Date_parse P s in
           if d = None then False
           else (let now = new_Date P in
                 strict_eq (getFullYear P d) (getFullYear P now) \<and>
                 strict_eq (getMonth P d) (getMonth P now))))"

definition filteredExpenses_v2 :: "platform \<Rightarrow> filter_mode \<Rightarrow> expense list \<Rightarrow> expense list" where
  "filteredExpenses_v2 P flt expenses =
     (if flt = FILTER_ALL then expenses
      else if flt = FILTER_WEEK then filter (\<lambda>e. isInCurrentWeek_v2 P (e_date e)) expenses
      else if flt = FILTER_MONTH then filter (\<lambda>e. isInCurrentMonth_v2 P (e_date e)) expenses
      else expenses)"

subsection \<open>Third version of the screen\<close>

definition isInCurrentWeek_v3 :: "platform \<Rightarrow> string option \<Rightarrow> bool" where
  "isInCurrentWeek_v3 P dateStr =
     (case dateStr of None \<Rightarrow> False
      | Some s \<Rightarrow>
         if s = [] then False
         else (let d = Date_parse P s in
           if d = None then False
           else (let now = new_Date P;
                     dayOfWeek = map_option (\<lambda>w. (w + 6) mod 7) (getDay P now);
                     monday = setHours P (setDate P now (js_minus (getDate P now) dayOfWeek)) 0 0 0 0;
                     sunday = setHours P (setDate P monday (js_plus (getDate P monday) (Some 6)))
                                23 59 59 999
                 in js_ge d monday \<and> js_le d sunday)))"

text \<open>The month test of this version has no check for an invalid date.\<close>

definition isInCurrentMonth_v3 :: "platform \<Rightarrow> string option \<Rightarrow> bool" where
  "isInCurrentMonth_v3 P dateStr =
     (case dateStr of None \<Rightarrow> False
      | Some s \<Rightarrow>
         if s = [] then False
         else (let d = Date_parse P s; now = new_Date P in
               strict_eq (getFullYear P d) (getFullYear P now) \<and>
               strict_eq (getMonth P d) (getMonth P now)))"

definition filteredExpenses_v3 :: "platform \<Rightarrow> filter_mode \<Rightarrow> expense list \<Rightarrow> expense list" where
  "filteredExpenses_v3 P flt expenses =
     (case flt of
        FILTER_WEEK \<Rightarrow> filter (\<lambda>e. isInCurrentWeek_v3 P (e_date e)) expenses
      | FILTER_MONTH \<Rightarrow> filter (\<lambda>e. isInCurrentMonth_v3 P (e_date e)) expenses
      | FILTER_ALL \<Rightarrow> expenses)"

section \<open>Parsing and formatting\<close>

subsection \<open>\<open>parseFloat\<close>\<close>

text \<open>
  \<open>parseFloat\<close> skips leading white space and reads the longest prefix that is a
  decimal literal: an optional sign, then \<open>Infinity\<close>, or digits with an optional
  fraction and an optional exponent. \<open>StrDecimalLiteral\<close> does the reading and gives
  the mathematical value of the literal; \<open>parseFloat\<close> rounds that value to a
  double, so that a literal too small becomes \<open>0\<close> and one too large an infinity.
  Without a literal the result is \<open>NaN\<close>.
\<close>

datatype literal = NotNumeric | Infinite bool | Decimal rat

definition is_prefix :: "string \<Rightarrow> string \<Rightarrow> bool" where
  "is_prefix p s = (take (length p) s = p)"

definition pow10 :: "int \<Rightarrow> rat" where
  "pow10 k = (if 0 \<le> k then 10 ^ nat k else 1 / 10 ^ nat (- k))"

definition exponent_part :: "string \<Rightarrow> int" where
  "exponent_part r =
     (case r of
        [] \<Rightarrow> 0
      | c # r1 \<Rightarrow>
          if c = CHR ''e'' \<or> c = CHR ''E'' then
            (let neg = (r1 \<noteq> [] \<and> hd r1 = CHR ''-'');
                 r2 = (if r1 \<noteq> [] \<and> (hd r1 = CHR ''-'' \<or> hd r1 = CHR ''+'') then tl r1 else r1);
                 ds = takeWhile isDigit r2
             in if ds = [] then 0 else if neg then - digits_val ds else digits_val ds)
          else 0)"

definition StrDecimalLiteral :: "string \<Rightarrow> literal" where
  "StrDecimalLiteral inputString =
     (let t = dropWhile isWhiteSpace inputString;
          neg = (t \<noteq> [] \<and> hd t = CHR ''-'');
          u = (if t \<noteq> [] \<and> (hd t = CHR ''-'' \<or> hd t = CHR ''+'') then tl t else t)
      in if is_prefix ''Infinity'' u then Infinite neg
         else
           (let ip = takeWhile isDigit u;
                r1 = dropWhile isDigit u;
                fp = (if r1 \<noteq> [] \<and> hd r1 = CHR ''.'' then takeWhile isDigit (tl r1) else []);
                r2 = (if r1 \<noteq> [] \<and> hd r1 = CHR ''.'' then dropWhile isDigit (tl r1) else r1)
            in if ip = [] \<and> fp = [] then NotNumeric
               else
                 (let m = of_int (digits_val ip) + of_int (digits_val fp) / 10 ^ length fp;
                      v = m * pow10 (exponent_part r2)
                  in Decimal (if neg then - v else v))))"

definition parseFloat :: "string \<Rightarrow> jsnum" where
  "parseFloat inputString =
     (case StrDecimalLiteral inputString of
        NotNumeric \<Rightarrow> NaN
      | Infinite neg \<Rightarrow> (if neg then NInf else PInf)
      | Decimal v \<Rightarrow> binary64 v)"

subsection \<open>Date strings\<close>

text \<open>
  The parser used for concrete platforms reads the date-only forms \<open>YYYY\<close>,
  \<open>YYYY-MM\<close> and \<open>YYYY-MM-DD\<close> of the standard's date-time string format, which
  denote midnight UTC of that day; every other string is an invalid date here (an
  engine may accept more forms).
\<close>

definition date_only :: "int \<Rightarrow> int \<Rightarrow> int \<Rightarrow> int option" where
  "date_only y m d =
     (if 1 \<le> m \<and> m \<le> 12 \<and> 1 \<le> d \<and> d \<le> 31
      then TimeClip (MakeDate (MakeDay y (m - 1) d) 0) else None)"

definition es_Date_parse :: "string \<Rightarrow> int option" where
  "es_Date_parse s =
     (if length s = 10 \<and> list_all isDigit (take 4 s) \<and> s ! 4 = CHR ''-'' \<and>
         list_all isDigit (take 2 (drop 5 s)) \<and> s ! 7 = CHR ''-'' \<and>
         list_all isDigit (drop 8 s)
      then date_only (digits_val (take 4 s)) (digits_val (take 2 (drop 5 s)))
             (digits_val (drop 8 s))
      else if length s = 7 \<and> list_all isDigit (take 4 s) \<and> s ! 4 = CHR ''-'' \<and>
         list_all isDigit (drop 5 s)
      then date_only (digits_val (take 4 s)) (digits_val (drop 5 s)) 1
      else if length s = 4 \<and> list_all isDigit s
      then date_only (digits_val s) 1 1
      else None)"

subsection \<open>\<open>toISOString\<close> and \<open>formatDateForDb\<close>\<close>

datatype js_error = RangeError

definition digit_char :: "int \<Rightarrow> char" where
  "digit_char n = char_of (48 + n mod 10)"

definition pad2 :: "int \<Rightarrow> string" where
  "pad2 n = [digit_char (n div 10), digit_char n]"

definition pad3 :: "int \<Rightarrow> string" where
  "pad3 n = [digit_char (n div 100), digit_char (n div 10), digit_char n]"

definition pad4 :: "int \<Rightarrow> string" where
  "pad4 n = [digit_char (n div 1000), digit_char (n div 100), digit_char (n div 10), digit_char n]"

definition pad6 :: "int \<Rightarrow> string" where
  "pad6 n = [digit_char (n div 100000), digit_char (n div 10000), digit_char (n div 1000),
             digit_char (n div 100), digit_char (n div 10), digit_char n]"

definition HourFromTime :: "int \<Rightarrow> int" where
  "HourFromTime t = (t div 3600000) mod 24"

definition MinFromTime :: "int \<Rightarrow> int" where
  "MinFromTime t = (t div 60000) mod 60"

definition SecFromTime :: "int \<Rightarrow> int" where
  "SecFromTime t = (t div 1000) mod 60"

definition msFromTime :: "int \<Rightarrow> int" where
  "msFromTime t = t mod 1000"

text \<open>\<open>toISOString\<close> writes the UTC fields of a date; years outside \<open>0..9999\<close> get a
  sign and six digits; an invalid date raises \<open>RangeError\<close>.\<close>

definition toISOString :: "jsdate \<Rightarrow> js_error + string" where
  "toISOString d =
     (case d of
        None \<Rightarrow> Inl RangeError
      | Some t \<Rightarrow>
          (let y = YearFromTime t;
               ys = (if 0 \<le> y \<and> y \<le> 9999 then pad4 y
                     else (if y < 0 then CHR ''-'' else CHR ''+'') # pad6 \<bar>y\<bar>)
           in Inr (ys @ ''-'' @ pad2 (MonthFromTime t + 1) @ ''-'' @
                   pad2 (DateFromTime t) @ ''T'' @ pad2 (HourFromTime t) @ '':'' @
                   pad2 (MinFromTime t) @ '':'' @ pad2 (SecFromTime t) @ ''.'' @
                   pad3 (msFromTime t) @ ''Z'')))"

definition formatDateForDb :: "jsdate \<Rightarrow> js_error + string" where
  "formatDateForDb date =
     (case toISOString date of Inl e \<Rightarrow> Inl e | Inr isoString \<Rightarrow> Inr (take 10 isoString))"

section \<open>Record store and screen\<close>

subsection \<open>The table\<close>

text \<open>
  The statements the screens send, with their bound parameters, and their effect on
  the table \<open>expenses\<close>. The table keeps its rows, the last identifier handed out by
  \<open>AUTOINCREMENT\<close>, and the statements executed so far. A \<open>NaN\<close> bound to a numeric
  column is stored as \<open>NULL\<close>.
\<close>

datatype sql_stmt =
    INSERT jsnum string "string option" string
  | UPDATE jsnum string "string option" string int
  | DELETE int

record database =
  db_rows :: "expense list"
  db_last_id :: int
  db_statements :: "sql_stmt list"

definition bind_number :: "jsnum \<Rightarrow> jsnum option" where
  "bind_number a = (if a = NaN then None else Some a)"

fun run_stmt :: "sql_stmt \<Rightarrow> database \<Rightarrow> database" where
  "run_stmt (INSERT a c n d) db =
     db\<lparr>db_rows := db_rows db @
            [\<lparr>e_id = db_last_id db + 1, e_amount = bind_number a, e_category = Some c,
              e_note = n, e_date = Some d\<rparr>],
        db_last_id := db_last_id db + 1,
        db_statements := db_statements db @ [INSERT a c n d]\<rparr>"
| "run_stmt (UPDATE a c n d i) db =
     db\<lparr>db_rows := map (\<lambda>e. if e_id e = i
                              then e\<lparr>e_amount := bind_number a, e_category := Some c,
                                     e_note := n, e_date := Some d\<rparr>
                              else e) (db_rows db),
        db_statements := db_statements db @ [UPDATE a c n d i]\<rparr>"
| "run_stmt (DELETE i) db =
     db\<lparr>db_rows := filter (\<lambda>e. e_id e \<noteq> i) (db_rows db),
        db_statements := db_statements db @ [DELETE i]\<rparr>"

text \<open>\<open>SELECT * FROM expenses ORDER BY id DESC\<close>\<close>

definition select_all :: "database \<Rightarrow> expense list" where
  "select_all db = rev (sort_key e_id (db_rows db))"

subsection \<open>Screen state\<close>

text \<open>The state hooks of the screen. The first version has neither a filter nor an
  edit target; its functions leave these two fields alone.\<close>

record screen =
  s_expenses :: "expense list"
  s_amount :: string
  s_category :: string
  s_note :: string
  s_date :: string
  s_filter :: filter_mode
  s_editingId :: "int option"

definition loadExpenses :: "screen \<times> database \<Rightarrow> screen \<times> database" where
  "loadExpenses w = (case w of (s, db) \<Rightarrow> (s\<lparr>s_expenses := select_all db\<rparr>, db))"

definition resetForm :: "screen \<Rightarrow> screen" where
  "resetForm s = s\<lparr>s_amount := [], s_category := [], s_note := [], s_date := [],
                    s_editingId := None\<rparr>"

subsection \<open>First version: \<open>saveExpense\<close> and \<open>deleteExpense\<close>\<close>

definition saveExpense_v1 :: "screen \<times> database \<Rightarrow> screen \<times> database" where
  "saveExpense_v1 w =
     (case w of (s, db) \<Rightarrow>
        if s_amount s = [] \<or> s_category s = [] \<or> s_date s = [] then (s, db)
        else
          (let db' = run_stmt (INSERT (parseFloat (s_amount s)) (s_category s)
                                 (Some (s_note s)) (s_date s)) db;
               s' = s\<lparr>s_amount := [], s_category := [], s_note := [], s_date := []\<rparr>
           in loadExpenses (s', db')))"

definition deleteExpense_v1 :: "int \<Rightarrow> screen \<times> database \<Rightarrow> screen \<times> database" where
  "deleteExpense_v1 i w = (case w of (s, db) \<Rightarrow> loadExpenses (s, run_stmt (DELETE i) db))"

subsection \<open>Second version: \<open>handleSubmit\<close> and \<open>deleteExpense\<close>\<close>

definition handleSubmit_v2 :: "platform \<Rightarrow> screen \<times> database \<Rightarrow> js_error + screen \<times> database" where
  "handleSubmit_v2 P w =
     (case w of (s, db) \<Rightarrow>
        (let amountNumber = parseFloat (s_amount s) in
         if isNaN amountNumber \<or> le_zero amountNumber then Inr (s, db)
         else
           (let trimmedCategory = trim (s_category s);
                trimmedNote = trim (s_note s)
            in if trimmedCategory = [] then Inr (s, db)
               else
                 (case (if trim (s_date s) \<noteq> [] then Inr (trim (s_date s))
                        else formatDateForDb (new_Date P)) of
                    Inl err \<Rightarrow> Inl err
                  | Inr expenseDate \<Rightarrow>
                      (let noteParam = (if trimmedNote \<noteq> [] then Some trimmedNote else None);
                           db' = (case s_editingId s of
                                    None \<Rightarrow>
                                      run_stmt (INSERT amountNumber trimmedCategory noteParam
                                                  expenseDate) db
                                  | Some i \<Rightarrow>
                                      run_stmt (UPDATE amountNumber trimmedCategory noteParam
                                                  expenseDate i) db)
                       in Inr (loadExpenses (resetForm s, db')))))))"

definition deleteExpense_v2 :: "int \<Rightarrow> screen \<times> database \<Rightarrow> screen \<times> database" where
  "deleteExpense_v2 i w = (case w of (s, db) \<Rightarrow> loadExpenses (s, run_stmt (DELETE i) db))"

subsection \<open>Third version: \<open>handleSubmit\<close> and \<open>deleteExpense\<close>\<close>

text \<open>Here the edit target is tested with \<open>!editingId\<close>, so the identifier \<open>0\<close>
  counts as no target; category and note are stored as typed.\<close>

definition handleSubmit_v3 :: "platform \<Rightarrow> screen \<times> database \<Rightarrow> js_error + screen \<times> database" where
  "handleSubmit_v3 P w =
     (case w of (s, db) \<Rightarrow>
        (let amountNum = parseFloat (s_amount s) in
         if isNaN amountNum \<or> le_zero amountNum then Inr (s, db)
         else if trim (s_category s) = [] then Inr (s, db)
         else
           (case (if trim (s_date s) \<noteq> [] then Inr (trim (s_date s))
                  else formatDateForDb (new_Date P)) of
              Inl err \<Rightarrow> Inl err
            | Inr finalDate \<Rightarrow>
                (let ins = INSERT amountNum (s_category s) (Some (s_note s)) finalDate;
                     db' = (case s_editingId s of
                              None \<Rightarrow> run_stmt ins db
                            | Some i \<Rightarrow>
                                if i = 0 then run_stmt ins db
                                else run_stmt (UPDATE amountNum (s_category s) (Some (s_note s))
                                                 finalDate i) db)
                 in Inr (loadExpenses (resetForm s, db'))))))"

definition deleteExpense_v3 :: "int \<Rightarrow> screen \<times> database \<Rightarrow> screen \<times> database" where
  "deleteExpense_v3 i w = (case w of (s, db) \<Rightarrow> loadExpenses (s, run_stmt (DELETE i) db))"

section \<open>Notions used to state the properties\<close>

subsection \<open>Labels, sums and key order\<close>

text \<open>
  \<open>label_of d e\<close> is the category of a record, with the label \<open>d\<close> standing in for a
  missing or empty category. \<open>amount_number\<close> is the amount of a record as a number,
  with \<open>0\<close> for \<open>null\<close>; \<open>amount_or_zero\<close> also puts \<open>0\<close> for \<open>NaN\<close>;
  \<open>amount_value\<close> is the amount as a rational, with \<open>0\<close> for an amount that is not
  a finite number. \<open>sum_of_amounts\<close> adds the amounts of a list from left to right,
  in doubles; \<open>category_sum d xs c\<close> does so for the records of \<open>xs\<close> whose label
  is \<open>c\<close>.

  \<open>first_seen xs\<close> lists the distinct elements of \<open>xs\<close> in the order of their first
  occurrence. \<open>enumeration_order ks\<close> puts the keys that are array indices first,
  in ascending numeric order, and leaves the others in place after them.

  \<open>is_double q\<close> says that the rational \<open>q\<close> is a double. \<open>exact_sums xs\<close> says that
  whichever records of \<open>xs\<close> are picked, the sum of their finite amounts is a double,
  so that no addition of such amounts rounds. \<open>total_of vs\<close> is the sum of a list of
  numbers regardless of order when no addition rounds. \<open>accumulate\<close> is the body of
  the loop that both versions run over the records to fill the per-category mapping.
\<close>

definition label_of :: "string \<Rightarrow> expense \<Rightarrow> string" where
  "label_of fallback e =
     (case e_category e of None \<Rightarrow> fallback | Some c \<Rightarrow> if c = [] then fallback else c)"

definition amount_number :: "expense \<Rightarrow> jsnum" where
  "amount_number e = (case e_amount e of None \<Rightarrow> Fin 0 | Some v \<Rightarrow> v)"

definition amount_or_zero :: "expense \<Rightarrow> jsnum" where
  "amount_or_zero e = (case e_amount e of None \<Rightarrow> Fin 0 | Some v \<Rightarrow> if isNaN v then Fin 0 else v)"

definition fin_value :: "jsnum \<Rightarrow> rat" where
  "fin_value v = (case v of Fin a \<Rightarrow> a | _ \<Rightarrow> 0)"

definition amount_value :: "expense \<Rightarrow> rat" where
  "amount_value e = fin_value (amount_number e)"

definition sum_of_amounts :: "expense list \<Rightarrow> jsnum" where
  "sum_of_amounts xs = foldl jsadd (Fin 0) (map amount_or_zero xs)"

definition category_sum :: "string \<Rightarrow> expense list \<Rightarrow> string \<Rightarrow> jsnum" where
  "category_sum fallback xs c =
     foldl jsadd (Fin 0) (map amount_number (filter (\<lambda>e. label_of fallback e = c) xs))"

definition first_seen :: "'a list \<Rightarrow> 'a list" where
  "first_seen xs = rev (remdups (rev xs))"

definition enumeration_order :: "string list \<Rightarrow> string list" where
  "enumeration_order ks =
     sort_key digits_val (filter isArrayIndex ks) @ filter (\<lambda>k. \<not> isArrayIndex k) ks"

definition is_double :: "rat \<Rightarrow> bool" where
  "is_double q = (binary64 q = Fin q)"

definition exact_sums :: "expense list \<Rightarrow> bool" where
  "exact_sums xs = (\<forall>ys \<in> set (subseqs (map amount_value xs)). is_double (sum_list ys))"

definition total_of :: "jsnum list \<Rightarrow> jsnum" where
  "total_of vs =
     (if NaN \<in> set vs \<or> (PInf \<in> set vs \<and> NInf \<in> set vs) then NaN
      else if PInf \<in> set vs then PInf
      else if NInf \<in> set vs then NInf
      else Fin (sum_list (map fin_value vs)))"

definition accumulate :: "(expense \<Rightarrow> string) \<Rightarrow> (expense \<Rightarrow> jsnum) \<Rightarrow> jsobj \<Rightarrow> expense \<Rightarrow> jsobj" where
  "accumulate cat amt m e =
     obj_set m (cat e) (val_add (val_or_zero (obj_get m (cat e))) (Num (amt e)))"

subsection \<open>Dates\<close>

text \<open>\<open>today_iso t\<close> is the UTC calendar day of the time \<open>t\<close>, written \<open>YYYY-MM-DD\<close>;
  \<open>local_today P\<close> is the calendar day that the local clock of the platform shows,
  written the same way; \<open>stmt_date\<close> is the date a statement binds.\<close>

definition today_iso :: "int \<Rightarrow> string" where
  "today_iso t = pad4 (YearFromTime t) @ ''-'' @ pad2 (MonthFromTime t + 1) @ ''-'' @ pad2 (DateFromTime t)"

definition local_today :: "platform \<Rightarrow> string" where
  "local_today P = today_iso (LocalTime P (Date_now P))"

fun stmt_date :: "sql_stmt \<Rightarrow> string option" where
  "stmt_date (INSERT a c n d) = Some d"
| "stmt_date (UPDATE a c n d i) = Some d"
| "stmt_date (DELETE i) = None"

text \<open>\<open>week_start\<close> is the instant of local midnight on the Monday found by going
  back \<open>(weekday + 6) mod 7\<close> days from the local day of the clock reading;
  \<open>week_end\<close> is the last millisecond of the Sunday that follows.\<close>

definition week_start :: "platform \<Rightarrow> int" where
  "week_start P =
     (let lt = LocalTime P (Date_now P) in
      msPerDay * (Day lt - (WeekDay lt + 6) mod 7) - LocalTZA P)"

definition week_end :: "platform \<Rightarrow> int" where
  "week_end P = week_start P + 7 * msPerDay - 1"

section \<open>Concrete inputs\<close>

text \<open>A platform five hours behind UTC and one on UTC, both reading the clock at
  2025-11-05T00:00:00Z (a Wednesday in UTC, Tuesday 19:00 five hours behind).\<close>

definition platform_west :: platform where
  "platform_west = \<lparr>Date_parse = es_Date_parse, LocalTZA = - 18000000, Date_now = 1762300800000\<rparr>"

definition platform_utc :: platform where
  "platform_utc = \<lparr>Date_parse = es_Date_parse, LocalTZA = 0, Date_now = 1762300800000\<rparr>"

definition empty_db :: database where
  "empty_db = \<lparr>db_rows = [], db_last_id = 0, db_statements = []\<rparr>"

definition sample_rows :: "expense list" where
  "sample_rows =
     [\<lparr>e_id = 1, e_amount = Some (Fin 10), e_category = Some ''Food'', e_note = None,
       e_date = Some ''2025-11-03''\<rparr>,
      \<lparr>e_id = 2, e_amount = Some (Fin 5), e_category = Some ''Food'', e_note = None,
       e_date = Some ''not a date''\<rparr>,
      \<lparr>e_id = 3, e_amount = Some (Fin 3), e_category = Some ''Rent'', e_note = Some ''May'',
       e_date = None\<rparr>]"

definition sample_db :: database where
  "sample_db = \<lparr>db_rows = sample_rows, db_last_id = 3, db_statements = []\<rparr>"

text \<open>
  Rows as the table returns them. \<open>row i a c\<close> has the amount \<open>a\<close> and the category
  \<open>c\<close>. \<open>cents_rows\<close> holds the amounts that \<open>handleSubmit\<close> stores for the texts
  \<open>0.1\<close>, \<open>0.7\<close> and \<open>0.3\<close>. \<open>proto_rows\<close> and \<open>constructor_rows\<close> have a category
  that names a property of \<open>Object.prototype\<close>, \<open>index_rows\<close> one that is an array
  index. \<open>infinity_rows\<close> holds both infinities, which a \<open>REAL\<close> column stores and
  \<open>parseFloat\<close> gives for the texts \<open>Infinity\<close> and \<open>-Infinity\<close>; \<open>overflow_rows\<close>
  holds only the positive one. \<open>unlabelled_rows\<close> has records without a category
  and a record without an amount.
\<close>

definition row :: "int \<Rightarrow> jsnum \<Rightarrow> string \<Rightarrow> expense" where
  "row i a c = \<lparr>e_id = i, e_amount = Some a, e_category = Some c, e_note = None,
                e_date = Some ''2025-11-03''\<rparr>"

definition cents_rows :: "expense list" where
  "cents_rows =
     [row 1 (parseFloat ''0.1'') ''Food'', row 2 (parseFloat ''0.7'') ''Rent'',
      row 3 (parseFloat ''0.3'') ''Food'']"

definition proto_rows :: "expense list" where
  "proto_rows = [row 1 (Fin 10) ''Food'', row 2 (Fin 5) ''__proto__'']"

definition constructor_rows :: "expense list" where
  "constructor_rows = [row 1 (Fin 10) ''Food'', row 2 (Fin 5) ''constructor'']"


definition infinity_rows :: "expense list" where
  "infinity_rows =
     [row 1 (parseFloat ''Infinity'') ''Food'', row 2 (parseFloat ''-Infinity'') ''Food'',
      row 3 (Fin 5) ''Food'']"

definition overflow_rows :: "expense list" where
  "overflow_rows = [row 1 (parseFloat ''Infinity'') ''Food'', row 2 (Fin 5) ''Food'', row 3 (Fin 3) ''Rent'']"


definition form :: "string \<Rightarrow> string \<Rightarrow> string \<Rightarrow> string \<Rightarrow> int option \<Rightarrow> screen" where
  "form a c n d target =
     \<lparr>s_expenses = [], s_amount = a, s_category = c, s_note = n, s_date = d,
      s_filter = FILTER_ALL, s_editingId = target\<rparr>"

section \<open>Properties\<close>

subsection \<open>Evaluating the rounding\<close>

text \<open>The overflow limit \<open>2^1024\<close>, written out for evaluation.\<close>

lemma overflow_limit_code [code]:
  "overflow_limit =
     179769313486231590772930519078902473361797697894230657273430081157732675805500963132708477322407536021120113879871393357658789768814416622492847430639474124377767893424865485276302219601246094119453082952085005768838150682342462881473913110540827237163350510684586298239947245938479716304835356329624224137216"
  by (simp add: overflow_limit_def pow2_def)

subsection \<open>Facts about the rounding\<close>

text \<open>
  An integer below \<open>2^53\<close> in absolute value is a double, so is every sum of whole
  numbers whose absolute values add up to less than \<open>2^53\<close>; and a positive value
  below \<open>2^-1075\<close> rounds to \<open>0\<close>.
\<close>

declare floor_log2.simps [simp del]

lemma floor_log2_bounds:
  "1 \<le> n \<Longrightarrow> 0 \<le> floor_log2 n \<and> 2 ^ nat (floor_log2 n) \<le> n \<and> n < 2 * 2 ^ nat (floor_log2 n)"
proof (induction n rule: floor_log2.induct)
  case (1 n)
  show ?case
  proof (cases "n \<le> 1")
    case True
    with 1(2) have "n = 1" by simp
    then show ?thesis
      by (simp add: floor_log2.simps [of 1])
  next
    case False
    then have h: "1 \<le> n div 2"
      by simp
    let ?f = "floor_log2 (n div 2)"
    from 1(1) [OF False h] have ih: "0 \<le> ?f" "2 ^ nat ?f \<le> n div 2" "n div 2 < 2 * 2 ^ nat ?f"
      by simp_all
    have fl: "floor_log2 n = 1 + ?f"
      using False by (simp add: floor_log2.simps [of n])
    have nt: "nat (1 + ?f) = Suc (nat ?f)"
      using ih(1) by simp
    have lo: "2 * (n div 2) \<le> n" and hi: "n < 2 * (n div 2) + 2"
      by simp_all
    from ih lo hi show ?thesis
      by (simp add: fl nt)
  qed
qed

lemma floor_log2_less:
  assumes "1 \<le> n" "n < 2 ^ k"
  shows "floor_log2 n < int k"
proof -
  from floor_log2_bounds [OF assms(1)]
  have lo: "(2::int) ^ nat (floor_log2 n) \<le> n" and nn: "0 \<le> floor_log2 n"
    by simp_all
  from lo assms(2) have "(2::int) ^ nat (floor_log2 n) < 2 ^ k"
    by (rule le_less_trans)
  then have "nat (floor_log2 n) < k"
    by simp
  with nn show ?thesis
    by simp
qed

lemma floor_log2_ge:
  assumes "2 ^ k \<le> n"
  shows "int k \<le> floor_log2 n"
proof -
  have "(1::int) \<le> 2 ^ k" by simp
  from this assms have n: "1 \<le> n" by (rule order_trans)
  from floor_log2_bounds [OF n]
  have hi: "n < 2 ^ Suc (nat (floor_log2 n))" and nn: "0 \<le> floor_log2 n"
    by simp_all
  from assms hi have "(2::int) ^ k < 2 ^ Suc (nat (floor_log2 n))"
    by (rule le_less_trans)
  then have "k < Suc (nat (floor_log2 n))"
    by (simp only: power_strict_increasing_iff [of 2] one_less_numeral_iff semiring_norm)
  with nn show ?thesis
    by simp
qed

lemma round_half_even_int: "round_half_even (of_int m) = m"
  by (simp add: round_half_even_def)

lemma binary64_nat:
  assumes a: "1 \<le> a" "a < 2 ^ 53"
  shows "of_int (round_half_even (of_int a / pow2 (max (exponent_of (of_int a)) (- 1022) - 52))) *
           pow2 (max (exponent_of (of_int a)) (- 1022) - 52) = (of_int a :: rat)"
proof -
  let ?e = "floor_log2 a"
  have ex: "exponent_of (of_int a) = ?e"
    using a(1) by (simp add: exponent_of_def)
  have e0: "0 \<le> ?e"
    using floor_log2_bounds [OF a(1)] by simp
  have e52: "?e \<le> 52"
    using floor_log2_less [OF a, of ] by simp
  define k where "k = nat (52 - ?e)"
  have u: "pow2 (max ?e (- 1022) - 52) = 1 / 2 ^ k"
    using e0 e52 by (cases "?e = 52") (simp_all add: pow2_def k_def max_def)
  have "(of_int a :: rat) / (1 / 2 ^ k) = of_int (a * 2 ^ k)"
    by simp
  then show ?thesis
    by (simp only: ex u round_half_even_int) simp
qed

lemma pow2_1024: "overflow_limit = 2 ^ 1024"
  by (simp add: overflow_limit_def pow2_def)

lemma binary64_int:
  assumes "\<bar>n\<bar> < 2 ^ 53"
  shows "binary64 (of_int n) = Fin (of_int n)"
proof (cases "n = 0")
  case True
  then show ?thesis by (simp add: binary64_def)
next
  case False
  let ?a = "\<bar>n\<bar>"
  have a: "1 \<le> ?a" "?a < 2 ^ 53"
    using False assms by simp_all
  have abs: "\<bar>of_int n :: rat\<bar> = of_int ?a"
    by simp
  have "(of_int ?a :: rat) < of_int (2 ^ 53)"
    using a(2) by (simp only: of_int_less_iff)
  also have "\<dots> < 2 ^ 1024"
    by simp
  finally have small: "\<not> overflow_limit \<le> (of_int ?a :: rat)"
    by (simp add: pow2_1024)
  have nz: "(of_int n :: rat) \<noteq> 0"
    using False by simp
  show ?thesis
    unfolding binary64_def Let_def abs binary64_nat [OF a]
    using nz small by (cases "0 < n") simp_all
qed

lemma abs_sum_nonneg: "0 \<le> sum_list (map abs ys)"
  for ys :: "rat list"
  by (induction ys) auto

lemma subseq_abs_sum:
  "subseq ys zs \<Longrightarrow> sum_list (map abs ys) \<le> sum_list (map abs zs)"
  for ys :: "rat list"
  by (induction rule: list_emb.induct) (auto simp: abs_sum_nonneg)

lemma subseq_subset: "subseq ys zs \<Longrightarrow> set ys \<subseteq> set zs"
  by (induction rule: list_emb.induct) auto

lemma abs_sum_list: "\<bar>sum_list ys\<bar> \<le> sum_list (map abs ys)"
  for ys :: "rat list"
  by (induction ys) auto

lemma sum_list_Ints: "\<forall>y \<in> set ys. y \<in> \<int> \<Longrightarrow> sum_list ys \<in> \<int>"
  for ys :: "rat list"
  by (induction ys) auto

lemma whole_sums_exact:
  assumes whole: "\<forall>z \<in> set zs. z \<in> \<int>"
    and bound: "sum_list (map abs zs) < 2 ^ 53"
    and sub: "subseq ys zs"
  shows "is_double (sum_list ys)"
proof -
  have "set ys \<subseteq> set zs"
    using sub by (rule subseq_subset)
  with whole have "sum_list ys \<in> \<int>"
    by (intro sum_list_Ints) auto
  then obtain n where n: "sum_list ys = of_int n"
    by (auto elim: Ints_cases)
  have "\<bar>sum_list ys\<bar> \<le> sum_list (map abs zs)"
    using abs_sum_list [of ys] subseq_abs_sum [OF sub] by (rule order_trans)
  with bound have "\<bar>of_int n :: rat\<bar> < 2 ^ 53"
    by (simp add: n)
  then have "(of_int \<bar>n\<bar> :: rat) < of_int (2 ^ 53)"
    by simp
  then have "\<bar>n\<bar> < 2 ^ 53"
    by (simp only: of_int_less_iff)
  then show ?thesis
    by (simp add: is_double_def n binary64_int)
qed

lemma binary64_underflow:
  assumes "0 < x" "x < 1 / 2 ^ 1075"
  shows "binary64 x = Fin 0"
proof -
  have x1: "x < 1"
    using assms(2) by (rule less_trans) simp
  have "2 ^ 1075 < 1 / x"
    using assms by (simp add: field_simps)
  then have "(2::rat) ^ 1075 < of_int \<lceil>1 / x\<rceil>"
    by (rule less_le_trans) simp
  then have "(of_int (2 ^ 1075) :: rat) < of_int \<lceil>1 / x\<rceil>"
    by simp
  then have "(2::int) ^ 1075 < \<lceil>1 / x\<rceil>"
    by (simp only: of_int_less_iff)
  then have "(2::int) ^ 1075 \<le> \<lceil>1 / x\<rceil> - 1"
    by simp
  then have "int 1075 \<le> floor_log2 (\<lceil>1 / x\<rceil> - 1)"
    by (rule floor_log2_ge)
  then have e: "max (exponent_of x) (- 1022) = - 1022"
    using x1 by (simp add: exponent_of_def)
  have u: "pow2 (- 1022 - 52) = 1 / 2 ^ 1074"
    by (simp add: pow2_def)
  have "x / (1 / 2 ^ 1074) = x * 2 ^ 1074"
    by simp
  also have "\<dots> < (1 / 2 ^ 1075) * 2 ^ 1074"
    using assms(2) by (simp only: mult_less_cancel_right_pos zero_less_power zero_less_numeral)
  also have "\<dots> = 1 / 2"
    by simp
  finally have q: "x / (1 / 2 ^ 1074) < 1 / 2" .
  have q0: "0 \<le> x / (1 / 2 ^ 1074)"
    using assms(1) by simp
  from q q0 have fl: "\<lfloor>x / (1 / 2 ^ 1074)\<rfloor> = 0"
    by (simp only: floor_eq_iff) simp
  have r: "round_half_even (x / (1 / 2 ^ 1074)) = 0"
    using q by (simp only: round_half_even_def Let_def fl) simp
  have ab: "\<bar>x\<bar> = x"
    using assms(1) by simp
  show ?thesis
    unfolding binary64_def Let_def ab e u r
    using assms(1) by (simp add: pow2_1024)
qed

lemma parseFloat_underflow: "parseFloat ''1e-400'' = Fin 0"
proof -
  have l: "StrDecimalLiteral ''1e-400'' = Decimal (1 / 10 ^ 400)"
    by code_simp
  have "binary64 (1 / 10 ^ 400) = Fin 0"
    by (rule binary64_underflow) simp_all
  with l show ?thesis
    by (simp add: parseFloat_def)
qed

subsection \<open>Rejected submissions\<close>

text \<open>
  Claim C1, as amended. In the second and third version, \<open>handleSubmit\<close> leaves the
  screen and the store as they are (no statement is executed, no row changes) whenever
  the amount field parses to \<open>NaN\<close> or to a value \<open>\<le> 0\<close>, or the category field is
  empty after trimming. In the first version, \<open>saveExpense\<close> does so exactly when the
  amount, category or date field is the empty string: with the three fields not
  empty it executes the \<open>INSERT\<close> with whatever \<open>parseFloat\<close> gives for the amount.
\<close>

theorem handleSubmit_rejects:
  "(isNaN (parseFloat (s_amount s)) \<or> le_zero (parseFloat (s_amount s)) \<or>
      trim (s_category s) = []
      \<longrightarrow> handleSubmit_v2 P (s, db) = Inr (s, db) \<and> handleSubmit_v3 P (s, db) = Inr (s, db)) \<and>
   (s_amount s = [] \<or> s_category s = [] \<or> s_date s = []
      \<longrightarrow> saveExpense_v1 (s, db) = (s, db)) \<and>
   (s_amount s \<noteq> [] \<and> s_category s \<noteq> [] \<and> s_date s \<noteq> []
      \<longrightarrow> db_statements (snd (saveExpense_v1 (s, db))) =
            db_statements db @
              [INSERT (parseFloat (s_amount s)) (s_category s) (Some (s_note s)) (s_date s)])"
  by (auto simp: handleSubmit_v2_def handleSubmit_v3_def saveExpense_v1_def Let_def loadExpenses_def)

text \<open>
  The theorem at a negative amount, at the amount \<open>1e-400\<close>, which is positive as a
  decimal and rounds to \<open>0\<close>, at an empty date in the first version, and at a negative
  amount in the first version.
\<close>

theorem handleSubmit_rejects_witness:
  "le_zero (parseFloat ''-4.5'') \<and>
   handleSubmit_v2 platform_utc (form ''-4.5'' ''Food'' [] [] None, sample_db)
     = Inr (form ''-4.5'' ''Food'' [] [] None, sample_db) \<and>
   handleSubmit_v3 platform_utc (form ''-4.5'' ''Food'' [] [] None, sample_db)
     = Inr (form ''-4.5'' ''Food'' [] [] None, sample_db) \<and>
   le_zero (parseFloat ''1e-400'') \<and>
   handleSubmit_v2 platform_utc (form ''1e-400'' ''Food'' [] [] None, sample_db)
     = Inr (form ''1e-400'' ''Food'' [] [] None, sample_db) \<and>
   handleSubmit_v3 platform_utc (form ''1e-400'' ''Food'' [] [] None, sample_db)
     = Inr (form ''1e-400'' ''Food'' [] [] None, sample_db) \<and>
   saveExpense_v1 (form ''12'' ''Food'' [] [] None, sample_db)
     = (form ''12'' ''Food'' [] [] None, sample_db) \<and>
   db_statements (snd (saveExpense_v1 (form ''-5'' ''Food'' [] ''2025-11-03'' None, sample_db)))
     = [INSERT (parseFloat ''-5'') ''Food'' (Some []) ''2025-11-03'']"
proof -
  have a: "le_zero (parseFloat ''-4.5'')"
    by code_simp
  have b: "le_zero (parseFloat ''1e-400'')"
    by (simp add: parseFloat_underflow)
  have d: "s_date (form ''12'' ''Food'' [] [] None) = []"
    by (simp add: form_def)
  have l: "db_statements sample_db = []"
    by (simp add: sample_db_def)
  from a b d l show ?thesis
    using handleSubmit_rejects [of "form ''-4.5'' ''Food'' [] [] None" platform_utc sample_db]
      handleSubmit_rejects [of "form ''1e-400'' ''Food'' [] [] None" platform_utc sample_db]
      handleSubmit_rejects [of "form ''12'' ''Food'' [] [] None" platform_utc sample_db]
      handleSubmit_rejects [of "form ''-5'' ''Food'' [] ''2025-11-03'' None" platform_utc sample_db]
    by (simp add: form_def)
qed

text \<open>
  Claim C1 as stated fails on \<open>saveExpense\<close>: with the amount \<open>abc\<close>, which parses to
  \<open>NaN\<close>, and with the amount \<open>-5\<close>, an \<open>INSERT\<close> is executed.
\<close>

theorem saveExpense_counterexample:
  "isNaN (parseFloat ''abc'') \<and>
   db_statements (snd (saveExpense_v1 (form ''abc'' ''Food'' [] ''2025-11-03'' None, empty_db)))
     = [INSERT NaN ''Food'' (Some []) ''2025-11-03''] \<and>
   le_zero (parseFloat ''-5'') \<and>
   db_statements (snd (saveExpense_v1 (form ''-5'' ''Food'' [] ''2025-11-03'' None, empty_db)))
     = [INSERT (Fin (- 5)) ''Food'' (Some []) ''2025-11-03'']"
  by code_simp

subsection \<open>Invalid dates\<close>

text \<open>
  Claim C4. For a date string that is empty, missing, or that the platform's parser
  rejects, the week test and the month test of both versions return false. The tests
  are total functions of their input: no step of them can raise.
\<close>

theorem invalid_date_is_no_match:
  "dateStr = None \<or> dateStr = Some [] \<or> (\<exists>s. dateStr = Some s \<and> Date_parse P s = None) \<Longrightarrow>
   \<not> isInCurrentWeek_v2 P dateStr \<and> \<not> isInCurrentMonth_v2 P dateStr \<and>
   \<not> isInCurrentWeek_v3 P dateStr \<and> \<not> isInCurrentMonth_v3 P dateStr"
  by (auto simp: isInCurrentWeek_v2_def isInCurrentMonth_v2_def isInCurrentWeek_v3_def
      isInCurrentMonth_v3_def getFullYear_def Let_def)

theorem invalid_date_is_no_match_witness:
  "Date_parse platform_west ''not a date'' = None \<and>
   \<not> isInCurrentWeek_v2 platform_west (Some ''not a date'') \<and>
   \<not> isInCurrentMonth_v2 platform_west (Some ''not a date'') \<and>
   \<not> isInCurrentWeek_v3 platform_west (Some ''not a date'') \<and>
   \<not> isInCurrentMonth_v3 platform_west (Some ''not a date'')"
proof -
  have p: "Date_parse platform_west ''not a date'' = None"
    by code_simp
  then show ?thesis
    using invalid_date_is_no_match [of "Some ''not a date''" platform_west] by simp
qed

subsection \<open>The identity filter\<close>

text \<open>
  Claim C5. Under the mode \<open>ALL\<close> the filtered list is the list of records itself,
  whatever the date fields of the records hold.
\<close>

theorem filter_all_is_identity:
  "filteredExpenses_v2 P FILTER_ALL expenses = expenses \<and>
   filteredExpenses_v3 P FILTER_ALL expenses = expenses"
  by (simp add: filteredExpenses_v2_def filteredExpenses_v3_def)

theorem filter_all_is_identity_witness:
  "filteredExpenses_v2 platform_west FILTER_ALL sample_rows = sample_rows \<and>
   filteredExpenses_v3 platform_west FILTER_ALL sample_rows = sample_rows"
  using filter_all_is_identity [of platform_west sample_rows] by simp

subsection \<open>Deletion\<close>

text \<open>
  Claim C10. Deleting by an identifier keeps exactly the rows with another identifier,
  each unchanged and in the same order; no row with the given identifier remains,
  in the table or in the list shown; and where identifiers are unique at most one row
  goes. This holds for \<open>deleteExpense\<close> of the second and of the third version.
\<close>

theorem deleteExpense_frame:
  "(\<forall>del \<in> {deleteExpense_v2, deleteExpense_v3}.
      db_rows (snd (del i (s, db))) = filter (\<lambda>e. e_id e \<noteq> i) (db_rows db) \<and>
      (\<forall>e \<in> set (db_rows db). e_id e \<noteq> i \<longrightarrow> e \<in> set (db_rows (snd (del i (s, db))))) \<and>
      (\<forall>e \<in> set (db_rows (snd (del i (s, db)))). e_id e \<noteq> i \<and> e \<in> set (db_rows db)) \<and>
      set (s_expenses (fst (del i (s, db)))) = {e \<in> set (db_rows db). e_id e \<noteq> i}) \<and>
   (distinct (map e_id (db_rows db)) \<longrightarrow>
      length (db_rows db) \<le> length (filter (\<lambda>e. e_id e \<noteq> i) (db_rows db)) + 1)"
proof -
  have one: "length (filter (\<lambda>e. e_id e = i) rs) \<le> 1" if "distinct (map e_id rs)"
    for rs :: "expense list"
    using that by (induction rs) (auto simp: image_iff filter_empty_conv)
  have split: "length (filter (\<lambda>e. e_id e = i) (db_rows db)) +
      length (filter (\<lambda>e. e_id e \<noteq> i) (db_rows db)) = length (db_rows db)"
    by (rule sum_length_filter_compl)
  have count: "distinct (map e_id (db_rows db)) \<longrightarrow>
      length (db_rows db) \<le> length (filter (\<lambda>e. e_id e \<noteq> i) (db_rows db)) + 1"
  proof
    assume "distinct (map e_id (db_rows db))"
    then have "length (filter (\<lambda>e. e_id e = i) (db_rows db)) \<le> 1"
      by (rule one)
    with split show "length (db_rows db) \<le> length (filter (\<lambda>e. e_id e \<noteq> i) (db_rows db)) + 1"
      by linarith
  qed
  have v2: "deleteExpense_v2 i (s, db) = (s\<lparr>s_expenses := select_all (run_stmt (DELETE i) db)\<rparr>,
      run_stmt (DELETE i) db)"
    by (simp add: deleteExpense_v2_def loadExpenses_def)
  have v3: "deleteExpense_v3 i (s, db) = (s\<lparr>s_expenses := select_all (run_stmt (DELETE i) db)\<rparr>,
      run_stmt (DELETE i) db)"
    by (simp add: deleteExpense_v3_def loadExpenses_def)
  have rows: "db_rows (run_stmt (DELETE i) db) = filter (\<lambda>e. e_id e \<noteq> i) (db_rows db)"
    by simp
  have shown: "set (select_all (run_stmt (DELETE i) db)) = {e \<in> set (db_rows db). e_id e \<noteq> i}"
    by (auto simp: select_all_def)
  show ?thesis
    using count by (simp add: v2 v3 rows shown del: run_stmt.simps)
qed

theorem deleteExpense_frame_witness:
  "db_rows (snd (deleteExpense_v2 2 (form [] [] [] [] None, sample_db)))
     = [sample_rows ! 0, sample_rows ! 2] \<and>
   db_rows (snd (deleteExpense_v3 2 (form [] [] [] [] None, sample_db)))
     = [sample_rows ! 0, sample_rows ! 2]"
  using deleteExpense_frame [of 2 "form [] [] [] [] None" sample_db]
  by (simp add: sample_db_def sample_rows_def)

subsection \<open>Auxiliary facts about the aggregator\<close>

text \<open>Keys and values of the mapping that the loop builds.\<close>

lemma first_seen_Nil: "first_seen [] = []"
  by (simp add: first_seen_def)

lemma first_seen_snoc:
  "first_seen (xs @ [x]) = (if x \<in> set xs then first_seen xs else first_seen xs @ [x])"
  by (simp add: first_seen_def)

lemma set_first_seen: "set (first_seen xs) = set xs"
  by (simp add: first_seen_def)

lemma distinct_first_seen: "distinct (first_seen xs)"
  by (simp add: first_seen_def)

lemma map_fst_own_set:
  "map fst (own_set m k v) = (if k \<in> fst ` set m then map fst m else map fst m @ [k])"
  by (induction m) (auto simp: image_iff, force+)

lemma own_get_own_set:
  "own_get (own_set m k v) c = (if c = k then Some v else own_get m c)"
  by (induction m) auto

lemma own_get_None: "own_get m c = None \<longleftrightarrow> c \<notin> fst ` set m"
  by (induction m) (auto simp: image_iff split: if_splits)

lemma own_get_distinct: "distinct (map fst m) \<Longrightarrow> (k, v) \<in> set m \<Longrightarrow> own_get m k = Some v"
  by (induction m) (auto simp: rev_image_eqI)

lemma accumulate_keys:
  "map fst (foldl (accumulate cat amt) [] xs) =
     first_seen (filter (\<lambda>c. c \<noteq> ''__proto__'') (map cat xs))"
proof (induction xs rule: rev_induct)
  case Nil
  show ?case by (simp add: first_seen_Nil)
next
  case (snoc x xs)
  then show ?case
    by (simp add: accumulate_def obj_set_def map_fst_own_set first_seen_snoc set_first_seen
        flip: set_map)
qed

lemma accumulate_distinct: "distinct (map fst (foldl (accumulate cat amt) [] xs))"
  by (simp add: accumulate_keys distinct_first_seen)

lemma jsadd_NaN_right: "jsadd v NaN = NaN"
  by (cases v) simp_all

lemma jsadd_not_NaN: "jsadd a b \<noteq> NaN \<Longrightarrow> a \<noteq> NaN \<and> b \<noteq> NaN"
  by (cases a; cases b) simp_all

lemma category_sum_snoc:
  "category_sum fb (xs @ [x]) c =
     (if label_of fb x = c then jsadd (category_sum fb xs c) (amount_number x)
      else category_sum fb xs c)"
  by (simp add: category_sum_def)

lemma category_sum_absent: "c \<notin> label_of fb ` set xs \<Longrightarrow> category_sum fb xs c = Fin 0"
  by (induction xs) (auto simp: category_sum_def)

lemma jsadd_zero_left: "jsadd (Fin 0) v = v \<or> (\<exists>a. v = Fin a \<and> jsadd (Fin 0) v = binary64 a)"
  by (cases v) simp_all

lemma obj_get_plain: "c \<notin> set inherited_names \<Longrightarrow> obj_get m c = own_get m c"
  by (simp add: obj_get_def split: option.split)

lemma proto_inherited: "''__proto__'' \<in> set inherited_names"
  by (simp add: inherited_names_def)

lemma own_get_obj_set:
  "c \<notin> set inherited_names \<Longrightarrow>
   own_get (obj_set m k v) c = (if c = k then Some v else own_get m c)"
  using proto_inherited by (auto simp: obj_set_def own_get_own_set)

lemma val_step: "s \<noteq> NaN \<Longrightarrow> val_add (val_or_zero (Some (Num s))) (Num a) = Num (jsadd s a)"
  by (cases s) auto

lemma accumulate_value:
  assumes amt: "\<And>e. amount_number e \<noteq> NaN \<Longrightarrow> amt e = amount_number e"
    and c: "c \<notin> set inherited_names"
  shows "(c \<notin> label_of fb ` set xs \<longrightarrow>
            own_get (foldl (accumulate (label_of fb) amt) [] xs) c = None) \<and>
         (c \<in> label_of fb ` set xs \<longrightarrow> category_sum fb xs c \<noteq> NaN \<longrightarrow>
            own_get (foldl (accumulate (label_of fb) amt) [] xs) c =
              Some (Num (category_sum fb xs c)))"
proof (induction xs rule: rev_induct)
  case Nil
  show ?case by simp
next
  case (snoc x xs)
  let ?m = "foldl (accumulate (label_of fb) amt) [] xs"
  have step: "own_get (accumulate (label_of fb) amt ?m x) c =
      (if c = label_of fb x then Some (val_add (val_or_zero (own_get ?m c)) (Num (amt x)))
       else own_get ?m c)"
    using c by (cases "c = label_of fb x") (auto simp: accumulate_def own_get_obj_set obj_get_plain)
  show ?case
  proof (cases "label_of fb x = c")
    case False
    then show ?thesis
      using snoc step by (auto simp: category_sum_snoc)
  next
    case True
    have "own_get (foldl (accumulate (label_of fb) amt) [] (xs @ [x])) c =
        Some (Num (category_sum fb (xs @ [x]) c))"
      if nn: "category_sum fb (xs @ [x]) c \<noteq> NaN"
    proof -
      from nn True have "jsadd (category_sum fb xs c) (amount_number x) \<noteq> NaN"
        by (simp add: category_sum_snoc)
      then have p: "category_sum fb xs c \<noteq> NaN" "amount_number x \<noteq> NaN"
        using jsadd_not_NaN by blast+
      have a: "amt x = amount_number x"
        using amt p(2) .
      show ?thesis
      proof (cases "c \<in> label_of fb ` set xs")
        case True
        with snoc p(1) have "own_get ?m c = Some (Num (category_sum fb xs c))"
          by simp
        with \<open>label_of fb x = c\<close> p(1) show ?thesis
          by (simp add: step val_step a category_sum_snoc del: val_or_zero.simps val_add.simps)
      next
        case False
        with snoc have "own_get ?m c = None"
          by simp
        with \<open>label_of fb x = c\<close> False show ?thesis
          by (simp add: step a category_sum_snoc category_sum_absent)
      qed
    qed
    with True show ?thesis
      by simp
  qed
qed

lemma map_fst_insort_key:
  "map fst (insort_key (\<lambda>p. h (fst p)) p ps) = insort_key h (fst p) (map fst ps)"
  for h :: "'a \<Rightarrow> int"
  by (induction ps) auto

lemma map_fst_sort_key:
  "map fst (sort_key (\<lambda>p. h (fst p)) ps) = sort_key h (map fst ps)"
  for h :: "'a \<Rightarrow> int"
  by (induction ps) (auto simp: map_fst_insort_key)

lemma Object_keys_enum: "Object_keys m = enumeration_order (map fst m)"
  by (simp add: Object_keys_def Object_entries_def enumeration_order_def map_fst_sort_key
      filter_map comp_def)

lemma set_enumeration_order: "set (enumeration_order ks) = set ks"
  by (auto simp: enumeration_order_def)


lemma set_Object_entries: "set (Object_entries m) = set m"
  by (auto simp: Object_entries_def)

lemma Object_values_lookup:
  assumes "distinct (map fst m)"
  shows "Object_values m = map (\<lambda>k. the (own_get m k)) (Object_keys m)"
proof -
  have "map snd (Object_entries m) = map (\<lambda>p. the (own_get m (fst p))) (Object_entries m)"
  proof (rule map_cong [OF refl])
    fix p assume "p \<in> set (Object_entries m)"
    then have "(fst p, snd p) \<in> set m"
      by (simp add: set_Object_entries)
    then show "snd p = the (own_get m (fst p))"
      using own_get_distinct [OF assms, of "fst p" "snd p"] by simp
  qed
  then show ?thesis
    by (simp add: Object_values_def Object_keys_def comp_def)
qed

lemma foldl_val_add_Num:
  "foldl val_add (Num a) (map (\<lambda>k. Num (g k)) ks) = Num (foldl jsadd a (map g ks))"
  by (induction ks arbitrary: a) simp_all

lemma first_seen_no_proto:
  "\<forall>e \<in> set xs. cat e \<notin> set inherited_names \<Longrightarrow>
   first_seen (filter (\<lambda>c. c \<noteq> ''__proto__'') (map cat xs)) = first_seen (map cat xs)"
proof -
  assume "\<forall>e \<in> set xs. cat e \<notin> set inherited_names"
  then have "\<forall>c \<in> set (map cat xs). c \<noteq> ''__proto__''"
    using proto_inherited by auto
  then have "filter (\<lambda>c. c \<noteq> ''__proto__'') (map cat xs) = map cat xs"
    by (simp only: filter_id_conv [THEN iffD2])
  then show ?thesis
    by simp
qed

lemma total_via_mapping:
  assumes amt: "\<And>e. amount_number e \<noteq> NaN \<Longrightarrow> amt e = amount_number e"
    and plain: "\<forall>e \<in> set xs. label_of fb e \<notin> set inherited_names"
    and nn: "\<forall>c \<in> label_of fb ` set xs. category_sum fb xs c \<noteq> NaN"
  shows "foldl val_add (Num (Fin 0)) (Object_values (foldl (accumulate (label_of fb) amt) [] xs)) =
         Num (foldl jsadd (Fin 0)
                (map (category_sum fb xs) (enumeration_order (first_seen (map (label_of fb) xs)))))"
proof -
  let ?m = "foldl (accumulate (label_of fb) amt) [] xs"
  let ?ks = "enumeration_order (first_seen (map (label_of fb) xs))"
  have keys: "Object_keys ?m = ?ks"
    using plain by (simp add: Object_keys_enum accumulate_keys first_seen_no_proto)
  have eq: "map (\<lambda>k. the (own_get ?m k)) ?ks = map (\<lambda>k. Num (category_sum fb xs k)) ?ks"
  proof (rule map_cong [OF refl])
    fix k assume "k \<in> set ?ks"
    then have k: "k \<in> label_of fb ` set xs"
      by (simp add: set_enumeration_order set_first_seen)
    with plain have "k \<notin> set inherited_names"
      by auto
    from accumulate_value [OF amt this, of fb xs] k nn
    show "the (own_get ?m k) = Num (category_sum fb xs k)"
      by simp
  qed
  have "foldl val_add (Num (Fin 0)) (Object_values ?m) =
      foldl val_add (Num (Fin 0)) (map (\<lambda>k. the (own_get ?m k)) ?ks)"
    by (simp add: Object_values_lookup [OF accumulate_distinct] keys)
  also have "\<dots> = foldl val_add (Num (Fin 0)) (map (\<lambda>k. Num (category_sum fb xs k)) ?ks)"
    by (simp only: eq)
  also have "\<dots> = Num (foldl jsadd (Fin 0) (map (category_sum fb xs) ?ks))"
    by (rule foldl_val_add_Num)
  finally show ?thesis .
qed

text \<open>Sums in which no addition rounds do not depend on the grouping.\<close>

lemma total_of_Nil: "total_of [] = Fin 0"
  by (simp add: total_of_def)

lemma total_of_single: "total_of [v] = v"
  by (cases v) (simp_all add: total_of_def fin_value_def)

lemma jsadd_total_of:
  assumes "set cs = set as \<union> set bs"
    and "sum_list (map fin_value cs) = sum_list (map fin_value as) + sum_list (map fin_value bs)"
    and "is_double (sum_list (map fin_value cs))"
  shows "jsadd (total_of as) (total_of bs) = total_of cs"
  using assms by (auto simp: total_of_def is_double_def)

lemma fold_total:
  "\<forall>ys. subseq ys (map fin_value vs) \<longrightarrow> is_double (sum_list ys) \<Longrightarrow>
   foldl jsadd (Fin 0) vs = total_of vs"
proof (induction vs rule: rev_induct)
  case Nil
  show ?case by (simp add: total_of_Nil)
next
  case (snoc v vs)
  have "\<forall>ys. subseq ys (map fin_value vs) \<longrightarrow> is_double (sum_list ys)"
    using snoc.prems by (auto intro: list_emb_prefix)
  then have ih: "foldl jsadd (Fin 0) vs = total_of vs"
    by (rule snoc.IH)
  have d: "is_double (sum_list (map fin_value (vs @ [v])))"
    using snoc.prems by blast
  have "jsadd (total_of vs) (total_of [v]) = total_of (vs @ [v])"
    by (rule jsadd_total_of [OF _ _ d]) auto
  then show ?case
    by (simp add: ih total_of_single)
qed

lemma sum_filter_split:
  "\<forall>x \<in> set xs. \<not> (P x \<and> Q x) \<Longrightarrow>
   sum_list (map f (filter (\<lambda>x. P x \<or> Q x) xs)) =
     sum_list (map f (filter P xs)) + sum_list (map f (filter Q xs))"
  for f :: "'a \<Rightarrow> rat"
  by (induction xs) auto

lemma exact_sums_filter:
  assumes "exact_sums xs" and "subseq ys (map fin_value (map amount_number (filter P xs)))"
  shows "is_double (sum_list ys)"
proof -
  have "subseq (map (\<lambda>e. fin_value (amount_number e)) (filter P xs))
          (map (\<lambda>e. fin_value (amount_number e)) xs)"
    by (rule subseq_map) simp
  with assms(2) have "subseq ys (map (\<lambda>e. fin_value (amount_number e)) xs)"
    by (simp add: comp_def)
  with assms(1) show ?thesis
    by (simp add: exact_sums_def amount_value_def [abs_def])
qed

lemma filter_total:
  "exact_sums xs \<Longrightarrow>
   foldl jsadd (Fin 0) (map amount_number (filter P xs)) =
     total_of (map amount_number (filter P xs))"
  by (rule fold_total) (blast intro: exact_sums_filter)

lemma regroup:
  assumes ex: "exact_sums xs" and "distinct ks"
  shows "foldl jsadd (Fin 0)
           (map (\<lambda>c. total_of (map amount_number (filter (\<lambda>e. cat e = c) xs))) ks) =
         total_of (map amount_number (filter (\<lambda>e. cat e \<in> set ks) xs))"
  using \<open>distinct ks\<close>
proof (induction ks rule: rev_induct)
  case Nil
  show ?case by (simp add: total_of_Nil)
next
  case (snoc k ks)
  let ?A = "map amount_number (filter (\<lambda>e. cat e \<in> set ks) xs)"
  let ?B = "map amount_number (filter (\<lambda>e. cat e = k) xs)"
  let ?C = "map amount_number (filter (\<lambda>e. cat e \<in> set ks \<or> cat e = k) xs)"
  from snoc.prems have k: "k \<notin> set ks" and dk: "distinct ks"
    by simp_all
  have ih: "foldl jsadd (Fin 0)
      (map (\<lambda>c. total_of (map amount_number (filter (\<lambda>e. cat e = c) xs))) ks) = total_of ?A"
    using dk by (rule snoc.IH)
  have s: "set ?C = set ?A \<union> set ?B"
    by auto
  have "\<forall>e \<in> set xs. \<not> (cat e \<in> set ks \<and> cat e = k)"
    using k by auto
  then have sm: "sum_list (map fin_value ?C) = sum_list (map fin_value ?A) + sum_list (map fin_value ?B)"
    by (simp add: comp_def sum_filter_split)
  have d: "is_double (sum_list (map fin_value ?C))"
    by (rule exact_sums_filter [OF ex subseq_order.order_refl])
  have "jsadd (total_of ?A) (total_of ?B) = total_of ?C"
    using s sm d by (rule jsadd_total_of)
  moreover have "(\<lambda>e. cat e \<in> set (ks @ [k])) = (\<lambda>e. cat e \<in> set ks \<or> cat e = k)"
    by auto
  ultimately show ?case
    by (simp add: ih)
qed

lemma distinct_enumeration_order: "distinct ks \<Longrightarrow> distinct (enumeration_order ks)"
  by (auto simp: enumeration_order_def)

lemma category_sum_total:
  "exact_sums xs \<Longrightarrow>
   category_sum fb xs c = total_of (map amount_number (filter (\<lambda>e. label_of fb e = c) xs))"
  by (simp add: category_sum_def filter_total)

lemma sum_of_category_sums:
  assumes ex: "exact_sums xs"
  shows "foldl jsadd (Fin 0)
           (map (category_sum fb xs) (enumeration_order (first_seen (map (label_of fb) xs)))) =
         foldl jsadd (Fin 0) (map amount_number xs)"
proof -
  let ?ks = "enumeration_order (first_seen (map (label_of fb) xs))"
  have d: "distinct ?ks"
    by (simp add: distinct_enumeration_order distinct_first_seen)
  have all: "filter (\<lambda>e. label_of fb e \<in> set ?ks) xs = xs"
    by (simp add: set_enumeration_order set_first_seen)
  have eq: "map (category_sum fb xs) ?ks =
      map (\<lambda>c. total_of (map amount_number (filter (\<lambda>e. label_of fb e = c) xs))) ?ks"
    using ex by (simp add: category_sum_total)
  have "foldl jsadd (Fin 0) (map (category_sum fb xs) ?ks) =
      total_of (map amount_number (filter (\<lambda>e. label_of fb e \<in> set ?ks) xs))"
    unfolding eq using d by (rule regroup [OF ex])
  also have "\<dots> = foldl jsadd (Fin 0) (map amount_number (filter (\<lambda>e. True) xs))"
    using filter_total [OF ex, of "\<lambda>e. True"] by (simp add: all)
  finally show ?thesis
    by simp
qed


lemma cat_v3_label: "cat_v3 = label_of ''Other''"
  by (rule ext) (simp add: cat_v3_def label_of_def)


lemma amt_v3_number: "amt_v3 e = amount_number e"
  by (cases "e_amount e") (simp_all add: amt_v3_def amount_number_def)

lemma amt_v2_amount_or_zero: "amt_v2 e = amount_or_zero e"
  by (cases "e_amount e"; cases "the (e_amount e)") (auto simp: amt_v2_def amount_or_zero_def)


lemma totalsByCategory_v3_fold:
  "totalsByCategory_v3 xs = foldl (accumulate (label_of ''Other'') amt_v3) [] xs"
  by (simp add: totalsByCategory_v3_def accumulate_def [abs_def] cat_v3_label)

lemma foldl_jsadd_NaN: "foldl jsadd NaN vs = NaN"
  by (induction vs) simp_all

lemma foldl_jsadd_has_NaN: "NaN \<in> set vs \<Longrightarrow> foldl jsadd a vs = NaN"
  by (induction vs arbitrary: a) (auto simp: jsadd_NaN_right foldl_jsadd_NaN)

lemma no_NaN_amount:
  assumes "\<forall>c \<in> label_of fb ` set xs. category_sum fb xs c \<noteq> NaN" and "e \<in> set xs"
  shows "amount_number e \<noteq> NaN"
proof
  assume "amount_number e = NaN"
  with assms(2) have "NaN \<in> set (map amount_number (filter (\<lambda>x. label_of fb x = label_of fb e) xs))"
    by (auto simp: image_iff intro!: bexI [of _ e])
  then have "category_sum fb xs (label_of fb e) = NaN"
    unfolding category_sum_def by (rule foldl_jsadd_has_NaN)
  with assms show False
    by auto
qed

lemma sum_of_amounts_number:
  "\<forall>e \<in> set xs. amount_number e \<noteq> NaN \<Longrightarrow>
   sum_of_amounts xs = foldl jsadd (Fin 0) (map amount_number xs)"
proof -
  assume a: "\<forall>e \<in> set xs. amount_number e \<noteq> NaN"
  have eq: "map amount_or_zero xs = map amount_number xs"
  proof (rule map_cong [OF refl])
    fix e assume "e \<in> set xs"
    with a have "amount_number e \<noteq> NaN" by simp
    then show "amount_or_zero e = amount_number e"
      by (cases "e_amount e"; cases "the (e_amount e)")
        (auto simp: amount_or_zero_def amount_number_def)
  qed
  show ?thesis
    unfolding sum_of_amounts_def eq ..
qed

lemma whole_amounts_exact:
  assumes "\<forall>e \<in> set xs. amount_value e \<in> \<int>" and "(\<Sum>e\<leftarrow>xs. \<bar>amount_value e\<bar>) < 2 ^ 53"
  shows "exact_sums xs"
  unfolding exact_sums_def
proof
  fix ys assume "ys \<in> set (subseqs (map amount_value xs))"
  then have sub: "subseq ys (map amount_value xs)"
    by simp
  have w: "\<forall>z \<in> set (map amount_value xs). z \<in> \<int>"
    using assms(1) by simp
  have b: "sum_list (map abs (map amount_value xs)) < 2 ^ 53"
    using assms(2) by (simp add: comp_def)
  from w b sub show "is_double (sum_list ys)"
    by (rule whole_sums_exact)
qed

lemma totalSpending_v2_sum: "totalSpending_v2 xs = sum_of_amounts xs"
  by (simp add: totalSpending_v2_def sum_of_amounts_def foldl_map amt_v2_amount_or_zero)

lemma totalSpending_v3_grouped:
  assumes "\<forall>e \<in> set xs. label_of ''Other'' e \<notin> set inherited_names"
    and "\<forall>c \<in> label_of ''Other'' ` set xs. category_sum ''Other'' xs c \<noteq> NaN"
  shows "totalSpending_v3 xs =
         Num (foldl jsadd (Fin 0)
                (map (category_sum ''Other'' xs)
                   (enumeration_order (first_seen (map (label_of ''Other'') xs)))))"
  unfolding totalSpending_v3_def totalsByCategory_v3_fold
  by (rule total_via_mapping [OF amt_v3_number assms])

lemma totalSpending_v3_exact:
  assumes "\<forall>e \<in> set xs. label_of ''Other'' e \<notin> set inherited_names"
    and "\<forall>c \<in> label_of ''Other'' ` set xs. category_sum ''Other'' xs c \<noteq> NaN"
    and "exact_sums xs"
  shows "totalSpending_v3 xs = Num (sum_of_amounts xs)"
proof -
  have "\<forall>e \<in> set xs. amount_number e \<noteq> NaN"
    using no_NaN_amount [OF assms(2)] by blast
  then have "sum_of_amounts xs = foldl jsadd (Fin 0) (map amount_number xs)"
    by (rule sum_of_amounts_number)
  then show ?thesis
    by (simp add: totalSpending_v3_grouped [OF assms(1,2)] sum_of_category_sums [OF assms(3)])
qed







subsection \<open>Grand total\<close>

text \<open>
  Claim C6, as amended. In the second version the grand total is the sum of the
  amounts, added in doubles from left to right, where a \<open>null\<close> or \<open>NaN\<close> amount
  counts as zero, for every list of records. In the third version, when no label
  (with \<open>Other\<close> for a missing or empty category) is the name of a property of
  \<open>Object.prototype\<close> and no label has the sum \<open>NaN\<close>, the grand total is the sum,
  over the labels in the key order of the mapping, of the sums of the amounts of
  each label; it equals the sum of the amounts from left to right when, in
  addition, no sum of amounts of the list rounds (\<open>exact_sums\<close>), as is the case
  when the finite amounts are whole numbers whose absolute values add up to less
  than \<open>2^53\<close>.
\<close>

theorem total_is_sum_of_amounts:
  "totalSpending_v2 xs = sum_of_amounts xs \<and>
   ((\<forall>e \<in> set xs. label_of ''Other'' e \<notin> set inherited_names) \<and>
    (\<forall>c \<in> label_of ''Other'' ` set xs. category_sum ''Other'' xs c \<noteq> NaN) \<longrightarrow>
      totalSpending_v3 xs =
        Num (foldl jsadd (Fin 0)
               (map (category_sum ''Other'' xs)
                  (enumeration_order (first_seen (map (label_of ''Other'') xs))))) \<and>
      (exact_sums xs \<longrightarrow> totalSpending_v3 xs = Num (sum_of_amounts xs))) \<and>
   ((\<forall>e \<in> set xs. amount_value e \<in> \<int>) \<and> (\<Sum>e\<leftarrow>xs. \<bar>amount_value e\<bar>) < 2 ^ 53 \<longrightarrow>
      exact_sums xs)"
  using totalSpending_v2_sum [of xs] totalSpending_v3_grouped [of xs]
    totalSpending_v3_exact [of xs] whole_amounts_exact [of xs]
  by blast


text \<open>
  The theorem at the three records of the example of the specification, and at a
  list with an infinite amount.
\<close>

theorem total_is_sum_of_amounts_witness:
  "totalSpending_v2 sample_rows = Fin 18 \<and> totalSpending_v3 sample_rows = Num (Fin 18) \<and>
   exact_sums sample_rows \<and>
   totalSpending_v2 overflow_rows = PInf \<and> totalSpending_v3 overflow_rows = Num PInf"
proof -
  have plain: "\<forall>e \<in> set sample_rows. label_of ''Other'' e \<notin> set inherited_names"
    "\<forall>e \<in> set overflow_rows. label_of ''Other'' e \<notin> set inherited_names"
    by code_simp+
  have nn: "\<forall>c \<in> label_of ''Other'' ` set sample_rows. category_sum ''Other'' sample_rows c \<noteq> NaN"
    "\<forall>c \<in> label_of ''Other'' ` set overflow_rows. category_sum ''Other'' overflow_rows c \<noteq> NaN"
    by code_simp+
  have whole: "(\<forall>e \<in> set sample_rows. amount_value e \<in> \<int>) \<and>
      (\<Sum>e\<leftarrow>sample_rows. \<bar>amount_value e\<bar>) < 2 ^ 53"
    by (simp add: sample_rows_def amount_value_def amount_number_def fin_value_def)
  have ex: "exact_sums overflow_rows"
    by code_simp
  have s: "sum_of_amounts sample_rows = Fin 18" "sum_of_amounts overflow_rows = PInf"
    by code_simp+
  have e: "exact_sums sample_rows"
    using total_is_sum_of_amounts [of sample_rows] whole by blast
  have a2: "totalSpending_v2 sample_rows = sum_of_amounts sample_rows"
    using total_is_sum_of_amounts [of sample_rows] by blast
  have a3: "totalSpending_v3 sample_rows = Num (sum_of_amounts sample_rows)"
    using total_is_sum_of_amounts [of sample_rows] plain(1) nn(1) e by blast
  have b2: "totalSpending_v2 overflow_rows = sum_of_amounts overflow_rows"
    using total_is_sum_of_amounts [of overflow_rows] by blast
  have b3: "totalSpending_v3 overflow_rows = Num (sum_of_amounts overflow_rows)"
    using total_is_sum_of_amounts [of overflow_rows] plain(2) nn(2) ex by blast
  from e a2 a3 b2 b3 s show ?thesis
    by simp
qed


text \<open>
  Claim C6 as stated fails in the third version. With the amounts \<open>0.1\<close>, \<open>0.7\<close>,
  \<open>0.3\<close> under the labels \<open>Food\<close>, \<open>Rent\<close>, \<open>Food\<close> the sum from left to right is
  \<open>1.0999999999999999\<close> and the grand total is \<open>1.1\<close>. A record labelled \<open>__proto__\<close>
  is left out of the total; a record labelled \<open>constructor\<close> turns the total into a
  string; and with the amounts \<open>Infinity\<close>, \<open>-Infinity\<close>, \<open>5\<close> under one label the
  total is \<open>5\<close>, where the sum is \<open>NaN\<close>.
\<close>

theorem total_regrouped_counterexample:
  "sum_of_amounts cents_rows = Fin (4953959590107545 / 4503599627370496) \<and>
   totalSpending_v3 cents_rows = Num (Fin (2476979795053773 / 2251799813685248)) \<and>
   sum_of_amounts proto_rows = Fin 15 \<and> totalSpending_v3 proto_rows = Num (Fin 10) \<and>
   sum_of_amounts constructor_rows = Fin 15 \<and> totalSpending_v3 constructor_rows = Text \<and>
   sum_of_amounts infinity_rows = NaN \<and> totalSpending_v3 infinity_rows = Num (Fin 5)"
  by code_simp


subsection \<open>Per-category totals\<close>






subsection \<open>Two ways to the grand total\<close>

text \<open>
  Claim C9, as amended. The grand total taken from the per-category mapping (third
  version) equals the grand total taken from the record list (second version) for
  every list of records in which no label is the name of a property of
  \<open>Object.prototype\<close>, no label has the sum \<open>NaN\<close>, and no sum of amounts rounds
  (\<open>exact_sums\<close>); the last condition holds when the finite amounts are whole numbers
  whose absolute values add up to less than \<open>2^53\<close>.
\<close>

theorem totals_strategies_agree:
  "((\<forall>e \<in> set xs. label_of ''Other'' e \<notin> set inherited_names) \<and>
    (\<forall>c \<in> label_of ''Other'' ` set xs. category_sum ''Other'' xs c \<noteq> NaN) \<and>
    exact_sums xs \<longrightarrow>
      totalSpending_v3 xs = Num (totalSpending_v2 xs)) \<and>
   ((\<forall>e \<in> set xs. amount_value e \<in> \<int>) \<and> (\<Sum>e\<leftarrow>xs. \<bar>amount_value e\<bar>) < 2 ^ 53 \<longrightarrow>
      exact_sums xs)"
  using totalSpending_v3_exact [of xs] totalSpending_v2_sum [of xs] whole_amounts_exact [of xs]
  by auto


text \<open>
  The theorem at the three records of the example of the specification, and at a
  list with an infinite amount.
\<close>

theorem totals_strategies_agree_witness:
  "exact_sums sample_rows \<and> totalSpending_v2 sample_rows = Fin 18 \<and>
   totalSpending_v3 sample_rows = Num (Fin 18) \<and>
   exact_sums overflow_rows \<and> totalSpending_v2 overflow_rows = PInf \<and>
   totalSpending_v3 overflow_rows = Num PInf"
proof -
  have plain: "\<forall>e \<in> set sample_rows. label_of ''Other'' e \<notin> set inherited_names"
    "\<forall>e \<in> set overflow_rows. label_of ''Other'' e \<notin> set inherited_names"
    by code_simp+
  have nn: "\<forall>c \<in> label_of ''Other'' ` set sample_rows. category_sum ''Other'' sample_rows c \<noteq> NaN"
    "\<forall>c \<in> label_of ''Other'' ` set overflow_rows. category_sum ''Other'' overflow_rows c \<noteq> NaN"
    by code_simp+
  have pinf: "parseFloat ''Infinity'' = PInf"
    by code_simp
  have whole: "(\<forall>e \<in> set sample_rows. amount_value e \<in> \<int>) \<and>
      (\<Sum>e\<leftarrow>sample_rows. \<bar>amount_value e\<bar>) < 2 ^ 53"
    "(\<forall>e \<in> set overflow_rows. amount_value e \<in> \<int>) \<and>
      (\<Sum>e\<leftarrow>overflow_rows. \<bar>amount_value e\<bar>) < 2 ^ 53"
    by (simp_all add: sample_rows_def overflow_rows_def row_def amount_value_def amount_number_def
        fin_value_def pinf)
  have v2: "totalSpending_v2 sample_rows = Fin 18" "totalSpending_v2 overflow_rows = PInf"
    by code_simp+
  have e1: "exact_sums sample_rows"
    using totals_strategies_agree [of sample_rows] whole(1) by blast
  have e2: "exact_sums overflow_rows"
    using totals_strategies_agree [of overflow_rows] whole(2) by blast
  have a: "totalSpending_v3 sample_rows = Num (totalSpending_v2 sample_rows)"
    using totals_strategies_agree [of sample_rows] plain(1) nn(1) e1 by blast
  have b: "totalSpending_v3 overflow_rows = Num (totalSpending_v2 overflow_rows)"
    using totals_strategies_agree [of overflow_rows] plain(2) nn(2) e2 by blast
  from e1 e2 a b v2 show ?thesis
    by simp
qed


text \<open>
  Claim C9 as stated fails. With the amounts \<open>0.1\<close>, \<open>0.7\<close>, \<open>0.3\<close> under the labels
  \<open>Food\<close>, \<open>Rent\<close>, \<open>Food\<close> the total from the list is \<open>1.0999999999999999\<close> and
  the total from the mapping is \<open>1.1\<close>. With a record labelled \<open>__proto__\<close> the
  totals are \<open>15\<close> and \<open>10\<close>; with a record labelled \<open>constructor\<close> the total from
  the mapping is a string; with the amounts \<open>Infinity\<close>, \<open>-Infinity\<close>, \<open>5\<close> under
  one label the totals are \<open>NaN\<close> and \<open>5\<close>.
\<close>

theorem totals_strategies_counterexample:
  "totalSpending_v2 cents_rows = Fin (4953959590107545 / 4503599627370496) \<and>
   totalSpending_v3 cents_rows = Num (Fin (2476979795053773 / 2251799813685248)) \<and>
   totalSpending_v2 proto_rows = Fin 15 \<and> totalSpending_v3 proto_rows = Num (Fin 10) \<and>
   totalSpending_v2 constructor_rows = Fin 15 \<and> totalSpending_v3 constructor_rows = Text \<and>
   totalSpending_v2 infinity_rows = NaN \<and> totalSpending_v3 infinity_rows = Num (Fin 5)"
  by code_simp

subsection \<open>Calendar facts\<close>

lemma div_succ:
  fixes n k :: int
  assumes "0 < k"
  shows "(n + 1) div k = n div k + (if (n + 1) mod k = 0 then 1 else 0)"
proof (cases "n mod k + 1 = k")
  case True
  have "k * (n div k + 1) = k * (n div k) + k"
    by (simp add: algebra_simps)
  with mult_div_mod_eq [of k n] True have eq: "n + 1 = k * (n div k + 1) + 0"
    by linarith
  have z: "(0::int) \<le> 0"
    by simp
  have "(n + 1) div k = n div k + 1"
    using eq z assms by (rule int_div_pos_eq)
  moreover have "(n + 1) mod k = 0"
    using eq z assms by (rule int_mod_pos_eq)
  ultimately show ?thesis by simp
next
  case False
  have r: "0 \<le> n mod k" "n mod k < k"
    using assms by simp_all
  have eq: "n + 1 = k * (n div k) + (n mod k + 1)"
    using mult_div_mod_eq [of k n] by linarith
  have lt: "n mod k + 1 < k"
    using False r by linarith
  have ge: "0 \<le> n mod k + 1"
    using r by linarith
  have "(n + 1) div k = n div k"
    using eq ge lt by (rule int_div_pos_eq)
  moreover have "(n + 1) mod k = n mod k + 1"
    using eq ge lt by (rule int_mod_pos_eq)
  ultimately show ?thesis using r by simp
qed

lemma step4: "(y - 1968) div 4 = (y - 1969) div 4 + (if y mod 4 = 0 then 1 else 0)" for y :: int
proof -
  have "(y - 1968) mod 4 = 0 \<longleftrightarrow> y mod 4 = 0" by presburger
  then show ?thesis
    using div_succ [of 4 "y - 1969"] by simp
qed

lemma step100: "(y - 1900) div 100 = (y - 1901) div 100 + (if y mod 100 = 0 then 1 else 0)" for y :: int
proof -
  have "(y - 1900) mod 100 = 0 \<longleftrightarrow> y mod 100 = 0" by presburger
  then show ?thesis
    using div_succ [of 100 "y - 1901"] by simp
qed

lemma step400: "(y - 1600) div 400 = (y - 1601) div 400 + (if y mod 400 = 0 then 1 else 0)" for y :: int
proof -
  have "(y - 1600) mod 400 = 0 \<longleftrightarrow> y mod 400 = 0" by presburger
  then show ?thesis
    using div_succ [of 400 "y - 1601"] by simp
qed

lemma m100_4: "y mod 100 = 0 \<Longrightarrow> y mod 4 = (0::int)"
  by presburger

lemma m400_100: "y mod 400 = 0 \<Longrightarrow> y mod 100 = (0::int)"
  by presburger

lemma DayFromYear_step: "DayFromYear (y + 1) = DayFromYear y + DaysInYear y"
  using m100_4 [of y] m400_100 [of y]
  by (simp add: DayFromYear_def DaysInYear_def step4 step100 step400)

lemma year_search_spec:
  "DayFromYear y \<le> d \<Longrightarrow>
   DayFromYear (year_search d y) \<le> d \<and> d < DayFromYear (year_search d y + 1)"
proof (induction d y rule: year_search.induct)
  case (1 d y)
  show ?case
  proof (cases "DayFromYear (y + 1) \<le> d")
    case True
    with "1.IH" have "DayFromYear (year_search d (y + 1)) \<le> d \<and>
        d < DayFromYear (year_search d (y + 1) + 1)"
      by simp
    moreover have "year_search d y = year_search d (y + 1)"
      using True by (subst year_search.simps) simp
    ultimately show ?thesis by simp
  next
    case False
    then have "year_search d y = y"
      by (subst year_search.simps) simp
    with False "1.prems" show ?thesis by simp
  qed
qed

lemma mult_div_le_int: "0 < b \<Longrightarrow> b * (a div b) \<le> a" for a b :: int
  using mult_div_mod_eq [of b a] pos_mod_sign [of b a] by linarith

lemma mult_div_ge_int: "0 < b \<Longrightarrow> a - (b - 1) \<le> b * (a div b)" for a b :: int
  using mult_div_mod_eq [of b a] pos_mod_bound [of b a] by linarith

lemma lin_nonneg:
  "4 * a \<le> k + 1 \<Longrightarrow> 0 \<le> b \<Longrightarrow> 400 * c \<le> k + 369 \<Longrightarrow> 2 \<le> k \<Longrightarrow> a - b + c \<le> k"
  for a b c k :: int
  by linarith

lemma lin_neg:
  "4 * a \<le> k + 1 \<Longrightarrow> k + 69 - 99 \<le> 100 * b \<Longrightarrow> 400 * c \<le> k + 369 \<Longrightarrow> k \<le> - 7 \<Longrightarrow>
   a - b + c \<le> 0"
  for a b c k :: int
  by linarith

lemma leap_count_nonneg:
  fixes k :: int
  assumes "0 \<le> k"
  shows "(k + 1) div 4 - (k + 69) div 100 + (k + 369) div 400 \<le> k"
proof (cases "2 \<le> k")
  case True
  have a: "4 * ((k + 1) div 4) \<le> k + 1"
    by (rule mult_div_le_int) simp
  have b: "0 \<le> (k + 69) div 100"
    using assms by (simp add: pos_imp_zdiv_nonneg_iff)
  have c: "400 * ((k + 369) div 400) \<le> k + 369"
    by (rule mult_div_le_int) simp
  from a b c True show ?thesis
    by (rule lin_nonneg)
next
  case False
  with assms have "k = 0 \<or> k = 1"
    by linarith
  then show ?thesis
  proof
    assume "k = 0"
    then show ?thesis by simp
  next
    assume "k = 1"
    then show ?thesis by simp
  qed
qed

lemma leap_count_neg:
  fixes k :: int
  assumes "k < 0"
  shows "(k + 1) div 4 - (k + 69) div 100 + (k + 369) div 400 \<le> 0"
proof (cases "k \<le> - 7")
  case True
  have a: "4 * ((k + 1) div 4) \<le> k + 1"
    by (rule mult_div_le_int) simp
  have b: "k + 69 - 99 \<le> 100 * ((k + 69) div 100)"
    using mult_div_ge_int [of 100 "k + 69"] by simp
  have c: "400 * ((k + 369) div 400) \<le> k + 369"
    by (rule mult_div_le_int) simp
  from a b c True show ?thesis
    by (rule lin_neg)
next
  case False
  with assms have "k = - 1 \<or> k = - 2 \<or> k = - 3 \<or> k = - 4 \<or> k = - 5 \<or> k = - 6"
    by linarith
  then consider "k = - 1" | "k = - 2" | "k = - 3" | "k = - 4" | "k = - 5" | "k = - 6"
    by blast
  then show ?thesis
    by cases simp_all
qed

lemma lin_start: "l \<le> k \<Longrightarrow> 366 * k \<le> d \<Longrightarrow> 365 * k + l \<le> d" for l k d :: int
  by linarith

lemma lin_start_neg: "l \<le> 0 \<Longrightarrow> 365 * k \<le> d \<Longrightarrow> 365 * k + l \<le> d" for l k d :: int
  by linarith

lemma DayFromYear_offset:
  "DayFromYear (1970 + k) = 365 * k + ((k + 1) div 4 - (k + 69) div 100 + (k + 369) div 400)"
  by (simp add: DayFromYear_def add.commute)

lemma year_start_le:
  "DayFromYear (1970 + (if 0 \<le> d then d div 366 else d div 365)) \<le> d"
proof (cases "0 \<le> d")
  case True
  then have k: "0 \<le> d div 366"
    by (simp add: pos_imp_zdiv_nonneg_iff)
  have "366 * (d div 366) \<le> d"
    by (rule mult_div_le_int) simp
  with leap_count_nonneg [OF k] have "DayFromYear (1970 + d div 366) \<le> d"
    unfolding DayFromYear_offset by (rule lin_start)
  with True show ?thesis by simp
next
  case False
  then have k: "d div 365 < 0"
    by (simp add: div_neg_pos_less0)
  have "365 * (d div 365) \<le> d"
    by (rule mult_div_le_int) simp
  with leap_count_neg [OF k] have "DayFromYear (1970 + d div 365) \<le> d"
    unfolding DayFromYear_offset by (rule lin_start_neg)
  with False show ?thesis by simp
qed

lemma YearFromDay_spec:
  "DayFromYear (YearFromDay d) \<le> d \<and> d < DayFromYear (YearFromDay d + 1)"
  unfolding YearFromDay_def by (rule year_search_spec) (rule year_start_le)

lemma DayWithinYear_bounds:
  "0 \<le> DayWithinYear t \<and> DayWithinYear t < 365 + InLeapYear t"
proof -
  have "DaysInYear (YearFromTime t) = 365 + InLeapYear t"
    by (simp add: InLeapYear_def DaysInYear_def)
  then show ?thesis
    using YearFromDay_spec [of "Day t"] DayFromYear_step [of "YearFromTime t"]
    by (simp add: DayWithinYear_def YearFromTime_def)
qed

lemma InLeapYear_cases: "InLeapYear t = 0 \<or> InLeapYear t = 1"
  by (simp add: InLeapYear_def)

lemma month_chain:
  fixes d l :: int
  assumes "0 \<le> d" "d < 365 + l" "l = 0 \<or> l = 1"
  defines "m \<equiv> (if d < 31 then 0 else if d < 59 + l then 1 else if d < 90 + l then 2
      else if d < 120 + l then 3 else if d < 151 + l then 4 else if d < 181 + l then 5
      else if d < 212 + l then 6 else if d < 243 + l then 7 else if d < 273 + l then 8
      else if d < 304 + l then 9 else if d < 334 + l then 10 else (11::int))"
  shows "0 \<le> m \<and> m \<le> 11 \<and> 1 \<le> d - month_start m l + 1 \<and> d - month_start m l + 1 \<le> 31"
  using assms(1-3) unfolding m_def month_start_def by auto

lemma MonthFromTime_bounds: "0 \<le> MonthFromTime t \<and> MonthFromTime t \<le> 11"
  using month_chain [OF DayWithinYear_bounds [THEN conjunct1] DayWithinYear_bounds [THEN conjunct2]
      InLeapYear_cases, of t]
  by (simp add: MonthFromTime_def Let_def)

lemma DateFromTime_bounds: "1 \<le> DateFromTime t \<and> DateFromTime t \<le> 31"
  using month_chain [OF DayWithinYear_bounds [THEN conjunct1] DayWithinYear_bounds [THEN conjunct2]
      InLeapYear_cases, of t]
  by (simp add: DateFromTime_def MonthFromTime_def Let_def)

lemma MakeDay_of_fields:
  "MakeDay (YearFromTime t) (MonthFromTime t) (DateFromTime t) = Day t"
proof -
  have m: "MonthFromTime t div 12 = 0" "MonthFromTime t mod 12 = MonthFromTime t"
    using MonthFromTime_bounds [of t] by simp_all
  show ?thesis
    by (simp add: MakeDay_def m Let_def DateFromTime_def DayWithinYear_def InLeapYear_def)
qed

subsection \<open>Decimal fields\<close>

lemma of_char_digit_char: "of_char (digit_char n) = 48 + n mod 10"
proof -
  have "0 \<le> n mod 10" "n mod 10 < 10"
    by simp_all
  then have "(48 + n mod 10) mod 256 = 48 + n mod 10"
    by (intro mod_pos_pos_trivial) linarith+
  then show ?thesis
    by (simp add: digit_char_def)
qed

lemma isDigit_digit_char: "isDigit (digit_char n)"
  by (simp add: isDigit_def of_char_digit_char)

lemma digit_val_digit_char: "digit_val (digit_char n) = n mod 10"
  by (simp add: digit_val_def of_char_digit_char)

lemma div_less_int: "0 < b \<Longrightarrow> a < b * c \<Longrightarrow> a div b < c" for a b c :: int
proof -
  assume b: "0 < b" and "a < b * c"
  with mult_div_le_int [OF b, of a] have "b * (a div b) < b * c"
    by linarith
  with b show ?thesis
    by (simp add: mult_less_cancel_left_pos)
qed

lemma digits_val_pad2: "0 \<le> n \<Longrightarrow> n < 100 \<Longrightarrow> digits_val (pad2 n) = n"
proof -
  assume "0 \<le> n" "n < 100"
  then have "n div 10 mod 10 = n div 10"
    by (intro mod_pos_pos_trivial) (simp_all add: pos_imp_zdiv_nonneg_iff div_less_int)
  then show ?thesis
    using mult_div_mod_eq [of 10 n]
    by (simp add: digits_val_def pad2_def digit_val_digit_char)
qed

lemma horner4:
  "b = 10 * a + x \<Longrightarrow> c = 10 * b + y \<Longrightarrow> n = 10 * c + z \<Longrightarrow>
   10 * (10 * (10 * a + x) + y) + z = n"
  for a b c n x y z :: int
  by simp

lemma digits_val_pad4: "0 \<le> n \<Longrightarrow> n < 10000 \<Longrightarrow> digits_val (pad4 n) = n"
proof -
  assume n: "0 \<le> n" "n < 10000"
  have a: "n div 1000 mod 10 = n div 1000"
    using n by (intro mod_pos_pos_trivial) (simp_all add: pos_imp_zdiv_nonneg_iff div_less_int)
  have b1: "n div 1000 = n div 100 div 10"
    using zdiv_zmult2_eq [of 10 n 100] by simp
  have b: "n div 100 = 10 * (n div 1000) + n div 100 mod 10"
    unfolding b1 using mult_div_mod_eq [of 10 "n div 100"] by simp
  have c1: "n div 100 = n div 10 div 10"
    using zdiv_zmult2_eq [of 10 n 10] by simp
  have c: "n div 10 = 10 * (n div 100) + n div 10 mod 10"
    unfolding c1 using mult_div_mod_eq [of 10 "n div 10"] by simp
  have d: "n = 10 * (n div 10) + n mod 10"
    using mult_div_mod_eq [of 10 n] by simp
  have "digits_val (pad4 n) =
      10 * (10 * (10 * (n div 1000) + n div 100 mod 10) + n div 10 mod 10) + n mod 10"
    by (simp add: digits_val_def pad4_def digit_val_digit_char a)
  also have "\<dots> = n"
    using b c d by (rule horner4)
  finally show ?thesis .
qed

lemma length_pads: "length (pad2 n) = 2" "length (pad4 n) = 4"
  by (simp_all add: pad2_def pad4_def)

lemma all_digit_pads: "list_all isDigit (pad2 n)" "list_all isDigit (pad4 n)"
  by (simp_all add: pad2_def pad4_def isDigit_digit_char)

lemma DayFromYear_mono: "y \<le> z \<Longrightarrow> DayFromYear y \<le> DayFromYear z"
proof (induction z rule: int_ge_induct)
  case base
  show ?case by simp
next
  case (step i)
  have "365 \<le> DaysInYear i"
    by (simp add: DaysInYear_def)
  with step.IH show ?case
    by (simp add: DayFromYear_step)
qed

lemma Day_bounds: "msPerDay * Day t \<le> t \<and> t < msPerDay * Day t + msPerDay"
  using mult_div_le_int [of msPerDay t] mult_div_ge_int [of msPerDay t]
  by (simp add: Day_def msPerDay_def)

lemma lin_range:
  "m * d \<le> t \<Longrightarrow> t < m * d + m \<Longrightarrow> lo \<le> d \<Longrightarrow> d < hi \<Longrightarrow> 0 < m \<Longrightarrow>
   m * lo \<le> t \<and> t < m * hi"
  for m d t lo hi :: int
proof -
  assume a: "m * d \<le> t" "t < m * d + m" "lo \<le> d" "d < hi" "0 < m"
  then have "m * lo \<le> m * d"
    by (simp add: mult_left_mono)
  moreover have "m * (d + 1) \<le> m * hi"
    using a by (intro mult_left_mono) simp_all
  then have "m * d + m \<le> m * hi"
    by (simp add: algebra_simps)
  ultimately show ?thesis
    using a by linarith
qed

lemma year_range_time:
  assumes "0 \<le> YearFromTime t" "YearFromTime t \<le> 9999"
  shows "- 62167219200000 \<le> t \<and> t < 253402300800000"
proof -
  have lo: "DayFromYear 0 \<le> Day t"
    using YearFromDay_spec [of "Day t"] DayFromYear_mono [OF assms(1)]
    by (simp add: YearFromTime_def)
  have "YearFromTime t + 1 \<le> 10000"
    using assms(2) by simp
  then have "DayFromYear (YearFromTime t + 1) \<le> DayFromYear 10000"
    by (rule DayFromYear_mono)
  then have hi: "Day t < DayFromYear 10000"
    using YearFromDay_spec [of "Day t"] by (simp add: YearFromTime_def)
  have "msPerDay * DayFromYear 0 \<le> t \<and> t < msPerDay * DayFromYear 10000"
    using Day_bounds [of t] lo hi by (intro lin_range [of msPerDay "Day t"]) (simp_all add: msPerDay_def)
  then show ?thesis
    by (simp add: msPerDay_def DayFromYear_def)
qed

lemma TimeClip_range:
  "- 62167219200000 \<le> x \<Longrightarrow> x < 253402300800000 \<Longrightarrow> TimeClip x = Some x"
  by (simp add: TimeClip_def abs_le_iff)

lemma new_Date_valid:
  "0 \<le> YearFromTime (Date_now P) \<Longrightarrow> YearFromTime (Date_now P) \<le> 9999 \<Longrightarrow>
   new_Date P = Some (Date_now P)"
  using year_range_time [of "Date_now P"] by (simp add: new_Date_def TimeClip_range)

lemma formatDateForDb_today:
  "0 \<le> YearFromTime t \<Longrightarrow> YearFromTime t \<le> 9999 \<Longrightarrow> formatDateForDb (Some t) = Inr (today_iso t)"
  by (simp add: formatDateForDb_def toISOString_def today_iso_def Let_def length_pads)

lemma today_iso_shape:
  "length (today_iso t) = 10 \<and> today_iso t ! 4 = CHR ''-'' \<and> today_iso t ! 7 = CHR ''-'' \<and>
   take 4 (today_iso t) = pad4 (YearFromTime t) \<and>
   take 2 (drop 5 (today_iso t)) = pad2 (MonthFromTime t + 1) \<and>
   drop 8 (today_iso t) = pad2 (DateFromTime t)"
  by (simp add: today_iso_def length_pads nth_append)

lemma today_iso_parses:
  assumes "0 \<le> YearFromTime t" "YearFromTime t \<le> 9999"
  shows "es_Date_parse (today_iso t) = Some (msPerDay * Day t)"
proof -
  have y: "digits_val (pad4 (YearFromTime t)) = YearFromTime t"
    using assms by (simp add: digits_val_pad4)
  have m: "digits_val (pad2 (MonthFromTime t + 1)) = MonthFromTime t + 1"
    using MonthFromTime_bounds [of t] by (simp add: digits_val_pad2)
  have d: "digits_val (pad2 (DateFromTime t)) = DateFromTime t"
    using DateFromTime_bounds [of t] by (simp add: digits_val_pad2)
  have clip: "TimeClip (msPerDay * Day t) = Some (msPerDay * Day t)"
  proof -
    have "- 62167219200000 \<le> msPerDay * Day t \<and> msPerDay * Day t \<le> t"
      using year_range_time [OF assms] Day_bounds [of t] by (simp add: msPerDay_def)
    moreover have "msPerDay * Day t < 253402300800000"
      using year_range_time [OF assms] Day_bounds [of t] by linarith
    ultimately show ?thesis
      by (simp add: TimeClip_range)
  qed
  have "date_only (YearFromTime t) (MonthFromTime t + 1) (DateFromTime t) = Some (msPerDay * Day t)"
    using MonthFromTime_bounds [of t] DateFromTime_bounds [of t] clip
    by (simp add: date_only_def MakeDay_of_fields MakeDate_def mult.commute)
  then show ?thesis
    using today_iso_shape [of t]
    by (simp add: es_Date_parse_def y m d all_digit_pads)
qed

subsection \<open>Default date\<close>

lemma run_stmt_log: "db_statements (run_stmt st db) = db_statements db @ [st]"
  by (cases st) simp_all

lemma run_stmt_new_rows:
  "stmt_date st = Some d \<Longrightarrow> e \<in> set (db_rows (run_stmt st db)) \<Longrightarrow> e \<notin> set (db_rows db) \<Longrightarrow>
   e_date e = Some d"
  by (cases st) auto

text \<open>
  What \<open>handleSubmit\<close> stores for an empty date field. When a submission passes
  validation and its date field is empty or holds only white space, \<open>handleSubmit\<close>
  (second and third version) executes one statement, and the date it binds, which is
  the date of every row it adds or changes, is the UTC calendar day of the clock
  reading at submission written \<open>YYYY-MM-DD\<close>: ten characters with dashes at
  positions 4 and 7, which the date parser reads back as midnight UTC of that day.
  The clock is taken to read a year from 0 to 9999, the range in which \<open>toISOString\<close>
  writes four-digit years.
\<close>

lemma default_date_is_utc_day:
  assumes "\<not> isNaN (parseFloat (s_amount s))" "\<not> le_zero (parseFloat (s_amount s))"
    and "trim (s_category s) \<noteq> []" "trim (s_date s) = []"
    and "0 \<le> YearFromTime (Date_now P)" "YearFromTime (Date_now P) \<le> 9999"
  shows "(\<forall>h \<in> {handleSubmit_v2, handleSubmit_v3}.
           \<exists>s' db' stmt. h P (s, db) = Inr (s', db') \<and>
             db_statements db' = db_statements db @ [stmt] \<and>
             stmt_date stmt = Some (today_iso (Date_now P)) \<and>
             (\<forall>e \<in> set (db_rows db'). e \<notin> set (db_rows db) \<longrightarrow>
                e_date e = Some (today_iso (Date_now P)))) \<and>
         length (today_iso (Date_now P)) = 10 \<and>
         today_iso (Date_now P) ! 4 = CHR ''-'' \<and> today_iso (Date_now P) ! 7 = CHR ''-'' \<and>
         es_Date_parse (today_iso (Date_now P)) = Some (msPerDay * Day (Date_now P))"
proof -
  let ?today = "today_iso (Date_now P)"
  have fmt: "formatDateForDb (new_Date P) = Inr ?today"
    using assms(5,6) by (simp add: new_Date_valid formatDateForDb_today)
  have post: "\<exists>s' db' stmt. Inr (loadExpenses (resetForm s, run_stmt st db)) = Inr (s', db') \<and>
             db_statements db' = db_statements db @ [stmt] \<and>
             stmt_date stmt = Some ?today \<and>
             (\<forall>e \<in> set (db_rows db'). e \<notin> set (db_rows db) \<longrightarrow> e_date e = Some ?today)"
    if "stmt_date st = Some ?today" for st :: sql_stmt
    using that run_stmt_new_rows [of st ?today _ db]
    by (auto simp: loadExpenses_def run_stmt_log)
  define n2 where "n2 = (if trim (s_note s) \<noteq> [] then Some (trim (s_note s)) else None)"
  define st2 where "st2 = (case s_editingId s of
      None \<Rightarrow> INSERT (parseFloat (s_amount s)) (trim (s_category s)) n2 ?today
    | Some i \<Rightarrow> UPDATE (parseFloat (s_amount s)) (trim (s_category s)) n2 ?today i)"
  define st3 where "st3 = (case s_editingId s of
      None \<Rightarrow> INSERT (parseFloat (s_amount s)) (s_category s) (Some (s_note s)) ?today
    | Some i \<Rightarrow> if i = 0 then INSERT (parseFloat (s_amount s)) (s_category s) (Some (s_note s)) ?today
               else UPDATE (parseFloat (s_amount s)) (s_category s) (Some (s_note s)) ?today i)"
  have d2: "stmt_date st2 = Some ?today"
    by (simp add: st2_def split: option.split)
  have d3: "stmt_date st3 = Some ?today"
    by (simp add: st3_def split: option.split)
  have e2: "handleSubmit_v2 P (s, db) = Inr (loadExpenses (resetForm s, run_stmt st2 db))"
    using assms(1-4) fmt
    by (cases "s_editingId s") (simp_all add: handleSubmit_v2_def Let_def st2_def n2_def del: run_stmt.simps)
  have e3: "handleSubmit_v3 P (s, db) = Inr (loadExpenses (resetForm s, run_stmt st3 db))"
    using assms(1-4) fmt
    by (cases "s_editingId s") (simp_all add: handleSubmit_v3_def Let_def st3_def del: run_stmt.simps)
  from d2 e2 have v2: "\<exists>st. stmt_date st = Some ?today \<and>
      handleSubmit_v2 P (s, db) = Inr (loadExpenses (resetForm s, run_stmt st db))"
    by blast
  from d3 e3 have v3: "\<exists>st. stmt_date st = Some ?today \<and>
      handleSubmit_v3 P (s, db) = Inr (loadExpenses (resetForm s, run_stmt st db))"
    by blast
  from v2 post have r2: "\<exists>s' db' stmt. handleSubmit_v2 P (s, db) = Inr (s', db') \<and>
             db_statements db' = db_statements db @ [stmt] \<and>
             stmt_date stmt = Some ?today \<and>
             (\<forall>e \<in> set (db_rows db'). e \<notin> set (db_rows db) \<longrightarrow> e_date e = Some ?today)"
    by metis
  from v3 post have r3: "\<exists>s' db' stmt. handleSubmit_v3 P (s, db) = Inr (s', db') \<and>
             db_statements db' = db_statements db @ [stmt] \<and>
             stmt_date stmt = Some ?today \<and>
             (\<forall>e \<in> set (db_rows db'). e \<notin> set (db_rows db) \<longrightarrow> e_date e = Some ?today)"
    by metis
  from r2 r3 show ?thesis
    using today_iso_shape [of "Date_now P"] today_iso_parses [OF assms(5,6)]
    by simp
qed

lemma default_date_is_utc_day_example:
  "today_iso (Date_now platform_utc) = ''2025-11-05'' \<and>
   db_statements (snd (projr (handleSubmit_v2 platform_utc
       (form ''12.50'' '' Food '' [] ''  '' None, empty_db))))
     = [INSERT (Fin (25 / 2)) ''Food'' None ''2025-11-05''] \<and>
   (\<exists>s' db' stmt. handleSubmit_v3 platform_utc (form ''12.50'' '' Food '' [] ''  '' None, empty_db)
       = Inr (s', db') \<and>
     db_statements db' = db_statements empty_db @ [stmt] \<and> stmt_date stmt = Some ''2025-11-05'' \<and>
     (\<forall>e \<in> set (db_rows db'). e \<notin> set (db_rows empty_db) \<longrightarrow> e_date e = Some ''2025-11-05'')) \<and>
   es_Date_parse ''2025-11-05'' = Some (msPerDay * Day (Date_now platform_utc))"
proof -
  let ?s = "form ''12.50'' '' Food '' [] ''  '' None"
  have h: "\<not> isNaN (parseFloat (s_amount ?s))" "\<not> le_zero (parseFloat (s_amount ?s))"
    "trim (s_category ?s) \<noteq> []" "trim (s_date ?s) = []"
    "0 \<le> YearFromTime (Date_now platform_utc)" "YearFromTime (Date_now platform_utc) \<le> 9999"
    by code_simp+
  have t: "today_iso (Date_now platform_utc) = ''2025-11-05''"
    by code_simp
  have e: "db_statements (snd (projr (handleSubmit_v2 platform_utc (?s, empty_db))))
     = [INSERT (Fin (25 / 2)) ''Food'' None ''2025-11-05'']"
    by code_simp
  from t e show ?thesis
    using default_date_is_utc_day [OF h, of empty_db] by simp
qed

text \<open>
  Claim C8. On a device five hours west of UTC whose clock reads 2025-11-05T00:00:00Z,
  which is 19:00 on 4 November 2025 local time, a valid submission with an empty date
  field is stored with the date \<open>2025-11-05\<close> by both versions of \<open>handleSubmit\<close>,
  where today's date on the device is \<open>2025-11-04\<close>.
\<close>

theorem default_date_west_of_utc:
  "local_today platform_west = ''2025-11-04'' \<and>
   db_statements (snd (projr (handleSubmit_v2 platform_west
       (form ''12.50'' ''Food'' [] [] None, empty_db))))
     = [INSERT (Fin (25 / 2)) ''Food'' None ''2025-11-05''] \<and>
   map e_date (db_rows (snd (projr (handleSubmit_v2 platform_west
       (form ''12.50'' ''Food'' [] [] None, empty_db)))))
     = [Some ''2025-11-05''] \<and>
   db_statements (snd (projr (handleSubmit_v3 platform_west
       (form ''12.50'' ''Food'' [] [] None, empty_db))))
     = [INSERT (Fin (25 / 2)) ''Food'' (Some []) ''2025-11-05''] \<and>
   map e_date (db_rows (snd (projr (handleSubmit_v3 platform_west
       (form ''12.50'' ''Food'' [] [] None, empty_db)))))
     = [Some ''2025-11-05'']"
  by code_simp

subsection \<open>The week and month windows\<close>

lemma MakeDay_shift:
  "MakeDay (YearFromTime t) (MonthFromTime t) (DateFromTime t + k) = Day t + k"
proof -
  have m: "MonthFromTime t div 12 = 0" "MonthFromTime t mod 12 = MonthFromTime t"
    using MonthFromTime_bounds [of t] by simp_all
  show ?thesis
    by (simp add: MakeDay_def m Let_def DateFromTime_def DayWithinYear_def InLeapYear_def)
qed

lemma time_split: "msPerDay * Day t + TimeWithinDay t = t"
  by (simp add: Day_def TimeWithinDay_def)

lemma Day_of_midnight: "Day (msPerDay * d) = d"
  by (simp add: Day_def msPerDay_def)

lemma Day_within: "0 \<le> r \<Longrightarrow> r < msPerDay \<Longrightarrow> Day (msPerDay * d + r) = d"
proof -
  assume r: "0 \<le> r" "r < msPerDay"
  have "msPerDay * d + r = msPerDay * d + r"
    by simp
  then show ?thesis
    unfolding Day_def using r by (rule int_div_pos_eq)
qed

lemma TimeWithinDay_of_midnight: "TimeWithinDay (msPerDay * d) = 0"
  by (simp add: TimeWithinDay_def msPerDay_def)

lemma Day_add_days: "Day (t + msPerDay * k) = Day t + k"
  by (simp add: Day_def msPerDay_def)

lemma TimeWithinDay_add_days: "TimeWithinDay (t + msPerDay * k) = TimeWithinDay t"
  by (simp add: TimeWithinDay_def msPerDay_def)

lemma setDate_shift:
  "setDate P (Some t) (Some (DateFromTime (LocalTime P t) + k)) = TimeClip (t + msPerDay * k)"
proof -
  let ?lt = "LocalTime P t"
  have "MakeDate (Day ?lt + k) (TimeWithinDay ?lt) = ?lt + msPerDay * k"
    using time_split [of ?lt] by (simp add: MakeDate_def algebra_simps)
  then show ?thesis
    by (simp add: setDate_def Let_def MakeDay_shift UTC_def LocalTime_def)
qed

lemma setHours_eq:
  "setHours P (Some t) h m s milli =
     TimeClip (msPerDay * Day (LocalTime P t) + MakeTime h m s milli - LocalTZA P)"
  by (simp add: setHours_def UTC_def MakeDate_def mult.commute)

lemma TimeClip_in_range: "\<bar>x\<bar> \<le> 8640000000000000 \<Longrightarrow> TimeClip x = Some x"
  by (simp add: TimeClip_def)

lemma week_bounds:
  assumes "\<bar>Date_now P\<bar> \<le> 8640000000000000 - 7 * msPerDay"
  shows "new_Date P = Some (Date_now P)"
    and "setHours P (setDate P (new_Date P)
            (js_minus (getDate P (new_Date P))
               (map_option (\<lambda>w. (w + 6) mod 7) (getDay P (new_Date P))))) 0 0 0 0
          = Some (week_start P)"
    and "setHours P (setDate P (Some (week_start P))
            (js_plus (getDate P (Some (week_start P))) (Some 6))) 23 59 59 999
          = Some (week_end P)"
proof -
  let ?now = "Date_now P"
  let ?tza = "LocalTZA P"
  let ?lt = "LocalTime P ?now"
  define dow where "dow = (WeekDay ?lt + 6) mod 7"
  define dy where "dy = Day ?lt"
  have dow: "0 \<le> dow" "dow \<le> 6"
    by (simp_all add: dow_def)
  have dy: "msPerDay * dy \<le> ?now + ?tza" "?now + ?tza < msPerDay * dy + msPerDay"
    using Day_bounds [of ?lt] by (simp_all add: dy_def LocalTime_def)
  have rng: "\<bar>?now\<bar> \<le> 8640000000000000 - 7 * 86400000"
    using assms by (simp add: msPerDay_def)
  have ws: "week_start P = msPerDay * (dy - dow) - ?tza"
    by (simp add: week_start_def Let_def dy_def dow_def)
  have ms: "msPerDay = 86400000"
    by (simp add: msPerDay_def)
  show n: "new_Date P = Some ?now"
    using rng by (simp add: new_Date_def TimeClip_def)
  have c0: "TimeClip (?now + msPerDay * (- dow)) = Some (?now + msPerDay * (- dow))"
    using rng dow unfolding ms by (intro TimeClip_in_range) linarith
  have c1: "TimeClip (msPerDay * (dy - dow) - ?tza) = Some (msPerDay * (dy - dow) - ?tza)"
    using rng dow dy unfolding ms right_diff_distrib distrib_left by (intro TimeClip_in_range) linarith
  have c2: "TimeClip (msPerDay * (dy - dow) - ?tza + msPerDay * 6)
      = Some (msPerDay * (dy - dow) - ?tza + msPerDay * 6)"
    using rng dow dy unfolding ms right_diff_distrib distrib_left by (intro TimeClip_in_range) linarith
  have c3: "TimeClip (msPerDay * (dy - dow) - ?tza + 7 * msPerDay - 1)
      = Some (msPerDay * (dy - dow) - ?tza + 7 * msPerDay - 1)"
    using rng dow dy unfolding ms right_diff_distrib distrib_left by (intro TimeClip_in_range) linarith
  have sd: "setDate P (new_Date P)
      (js_minus (getDate P (new_Date P)) (map_option (\<lambda>w. (w + 6) mod 7) (getDay P (new_Date P))))
      = Some (?now + msPerDay * (- dow))"
    using setDate_shift [of P ?now "- dow"] c0
    by (simp add: n getDate_def getDay_def dow_def)
  have "LocalTime P (?now + msPerDay * (- dow)) = ?lt + msPerDay * (- dow)"
    by (simp add: LocalTime_def)
  then have d1: "Day (LocalTime P (?now + msPerDay * (- dow))) = dy - dow"
    by (simp only: Day_add_days dy_def)
  show "setHours P (setDate P (new_Date P)
            (js_minus (getDate P (new_Date P))
               (map_option (\<lambda>w. (w + 6) mod 7) (getDay P (new_Date P))))) 0 0 0 0
          = Some (week_start P)"
    unfolding sd setHours_eq d1 using c1 by (simp add: ws MakeTime_def)
  have sd2: "setDate P (Some (week_start P)) (js_plus (getDate P (Some (week_start P))) (Some 6))
      = Some (week_start P + msPerDay * 6)"
    using setDate_shift [of P "week_start P" 6] c2 by (simp add: getDate_def ws)
  have "LocalTime P (week_start P + msPerDay * 6) = msPerDay * (dy - dow + 6)"
    by (simp add: ws LocalTime_def algebra_simps)
  then have d2: "Day (LocalTime P (week_start P + msPerDay * 6)) = dy - dow + 6"
    by (simp add: Day_of_midnight)
  show "setHours P (setDate P (Some (week_start P))
            (js_plus (getDate P (Some (week_start P))) (Some 6))) 23 59 59 999
          = Some (week_end P)"
    unfolding sd2 setHours_eq d2 using c3
    by (simp add: week_end_def ws MakeTime_def ms algebra_simps)
qed

lemma week_window:
  assumes "\<bar>Date_now P\<bar> \<le> 8640000000000000 - 7 * msPerDay" and "s \<noteq> []"
  shows "isInCurrentWeek_v2 P (Some s) =
           (case Date_parse P s of None \<Rightarrow> False | Some t \<Rightarrow> week_start P \<le> t \<and> t \<le> week_end P)"
    and "isInCurrentWeek_v3 P (Some s) =
           (case Date_parse P s of None \<Rightarrow> False | Some t \<Rightarrow> week_start P \<le> t \<and> t \<le> week_end P)"
  using assms(2) week_bounds(2,3) [OF assms(1)]
  by (simp_all add: isInCurrentWeek_v2_def isInCurrentWeek_v3_def Let_def split: option.split)

lemma monday_index:
  fixes dy :: int
  shows "(dy - ((dy + 4) mod 7 + 6) mod 7 + 4) mod 7 = 1"
proof -
  define w where "w = (dy + 4) mod 7"
  have w: "0 \<le> w" "w < 7"
    by (simp_all add: w_def)
  have dy: "dy + 4 = 7 * ((dy + 4) div 7) + w"
    by (simp add: w_def)
  show ?thesis
  proof (cases "w = 0")
    case True
    then have "dy - ((dy + 4) mod 7 + 6) mod 7 + 4 = 7 * ((dy + 4) div 7 - 1) + 1"
      using dy by (simp add: w_def [symmetric])
    then show ?thesis
      by (simp only: mod_mult_self4) simp
  next
    case False
    with w have "(w + 6) mod 7 = w - 1"
      by (intro int_mod_pos_eq [of _ _ 1]) simp_all
    then have "dy - ((dy + 4) mod 7 + 6) mod 7 + 4 = 7 * ((dy + 4) div 7) + 1"
      using dy by (simp add: w_def [symmetric])
    then show ?thesis
      by (simp only: mod_mult_self4) simp
  qed
qed


lemma week_start_is_monday:
  "WeekDay (LocalTime P (week_start P)) = 1 \<and> TimeWithinDay (LocalTime P (week_start P)) = 0"
proof -
  let ?lt = "LocalTime P (Date_now P)"
  have l: "LocalTime P (week_start P) = msPerDay * (Day ?lt - (WeekDay ?lt + 6) mod 7)"
    by (simp add: week_start_def LocalTime_def Let_def)
  show ?thesis
    unfolding l by (simp add: WeekDay_def Day_of_midnight TimeWithinDay_of_midnight monday_index)
qed


lemma week_contains_now: "week_start P \<le> Date_now P \<and> Date_now P \<le> week_end P"
proof -
  let ?lt = "LocalTime P (Date_now P)"
  define dow where "dow = (WeekDay ?lt + 6) mod 7"
  define dy where "dy = Day ?lt"
  have dow: "0 \<le> dow" "dow \<le> 6"
    by (simp_all add: dow_def)
  have dy: "msPerDay * dy \<le> Date_now P + LocalTZA P" "Date_now P + LocalTZA P < msPerDay * dy + msPerDay"
    using Day_bounds [of ?lt] by (simp_all add: dy_def LocalTime_def)
  have ws: "week_start P = msPerDay * dy - msPerDay * dow - LocalTZA P"
    by (simp add: week_start_def Let_def dy_def dow_def right_diff_distrib)
  show ?thesis
    using dow dy unfolding week_end_def ws msPerDay_def by linarith
qed

lemma monday_dated_record:
  assumes "\<bar>Date_now P\<bar> \<le> 8640000000000000 - 7 * msPerDay" and "s \<noteq> []"
    and "Date_parse P s = Some (LocalTime P (week_start P))"
    and "\<bar>LocalTZA P\<bar> < msPerDay"
  shows "isInCurrentWeek_v2 P (Some s) = (0 \<le> LocalTZA P)"
    and "isInCurrentWeek_v3 P (Some s) = (0 \<le> LocalTZA P)"
  using assms(3,4) unfolding week_window [OF assms(1,2)]
  by (auto simp: LocalTime_def week_end_def msPerDay_def)


lemma sunday_dated_record:
  assumes "\<bar>Date_now P\<bar> \<le> 8640000000000000 - 7 * msPerDay" and "s \<noteq> []"
    and "Date_parse P s = Some (LocalTime P (week_start P) - msPerDay)"
    and "\<bar>LocalTZA P\<bar> < msPerDay"
  shows "\<not> isInCurrentWeek_v2 P (Some s)" and "\<not> isInCurrentWeek_v3 P (Some s)"
  using assms(3,4) unfolding week_window [OF assms(1,2)]
  by (auto simp: LocalTime_def week_end_def msPerDay_def)

lemma fields_by_day:
  "Day t = Day t' \<Longrightarrow> YearFromTime t = YearFromTime t' \<and> MonthFromTime t = MonthFromTime t'"
  by (simp add: YearFromTime_def MonthFromTime_def DayWithinYear_def InLeapYear_def)


lemma month_window:
  assumes "\<bar>Date_now P\<bar> \<le> 8640000000000000" and "s \<noteq> []"
  shows "isInCurrentMonth_v2 P (Some s) =
           (case Date_parse P s of None \<Rightarrow> False
            | Some t \<Rightarrow> YearFromTime (LocalTime P t) = YearFromTime (LocalTime P (Date_now P)) \<and>
                MonthFromTime (LocalTime P t) = MonthFromTime (LocalTime P (Date_now P)))"
    and "isInCurrentMonth_v3 P (Some s) =
           (case Date_parse P s of None \<Rightarrow> False
            | Some t \<Rightarrow> YearFromTime (LocalTime P t) = YearFromTime (LocalTime P (Date_now P)) \<and>
                MonthFromTime (LocalTime P t) = MonthFromTime (LocalTime P (Date_now P)))"
  using assms
  by (simp_all add: isInCurrentMonth_v2_def isInCurrentMonth_v3_def Let_def new_Date_def
      TimeClip_def getFullYear_def getMonth_def split: option.split)


lemma day_of_current_month_east:
  assumes "\<bar>Date_now P\<bar> \<le> 8640000000000000" and "s \<noteq> []"
    and "Date_parse P s = Some (msPerDay * d)"
    and "0 \<le> LocalTZA P" "LocalTZA P < msPerDay"
    and "YearFromTime (msPerDay * d) = YearFromTime (LocalTime P (Date_now P))"
    and "MonthFromTime (msPerDay * d) = MonthFromTime (LocalTime P (Date_now P))"
  shows "isInCurrentMonth_v2 P (Some s)" and "isInCurrentMonth_v3 P (Some s)"
proof -
  have "Day (LocalTime P (msPerDay * d)) = Day (msPerDay * d)"
    using assms(4,5) by (simp add: LocalTime_def Day_within Day_of_midnight)
  then have "YearFromTime (LocalTime P (msPerDay * d)) = YearFromTime (msPerDay * d) \<and>
      MonthFromTime (LocalTime P (msPerDay * d)) = MonthFromTime (msPerDay * d)"
    by (rule fields_by_day)
  then show "isInCurrentMonth_v2 P (Some s)" and "isInCurrentMonth_v3 P (Some s)"
    using assms(3,6,7) unfolding month_window [OF assms(1,2)] by simp_all
qed

text \<open>
  Claim C2, evaluated five hours west of UTC on Tuesday 2025-11-04, 19:00 local time.
  The Monday of the current week is 2025-11-03, and the string \<open>2025-11-03\<close>
  denotes it; yet the week test rejects a record so dated, because the string is
  parsed as midnight UTC, which is Sunday evening local time. The record dated the
  following Monday, \<open>2025-11-10\<close>, is accepted.
\<close>

theorem monday_record_west_of_utc:
  "es_Date_parse ''2025-11-03'' = Some (LocalTime platform_west (week_start platform_west)) \<and>
   WeekDay (LocalTime platform_west (week_start platform_west)) = 1 \<and>
   week_start platform_west \<le> Date_now platform_west \<and>
   Date_now platform_west \<le> week_end platform_west \<and>
   \<not> isInCurrentWeek_v2 platform_west (Some ''2025-11-03'') \<and>
   \<not> isInCurrentWeek_v3 platform_west (Some ''2025-11-03'') \<and>
   isInCurrentWeek_v2 platform_west (Some ''2025-11-10'') \<and>
   isInCurrentWeek_v3 platform_west (Some ''2025-11-10'')"
proof -
  have p: "Date_parse platform_west ''2025-11-03'' = Some (LocalTime platform_west (week_start platform_west))"
    by code_simp
  have r: "\<bar>Date_now platform_west\<bar> \<le> 8640000000000000 - 7 * msPerDay"
    by code_simp
  have z: "\<bar>LocalTZA platform_west\<bar> < msPerDay" "\<not> 0 \<le> LocalTZA platform_west"
    by code_simp+
  have n: "''2025-11-03'' \<noteq> []" "''2025-11-10'' \<noteq> []"
    by simp_all
  have q: "Date_parse platform_west ''2025-11-10'' = Some 1762732800000"
    by code_simp
  have w: "week_start platform_west \<le> 1762732800000" "1762732800000 \<le> week_end platform_west"
    by code_simp+
  from p have "es_Date_parse ''2025-11-03'' = Some (LocalTime platform_west (week_start platform_west))"
    by (simp add: platform_west_def)
  then show ?thesis
    using monday_dated_record [OF r n(1) p z(1)] z(2) week_start_is_monday [of platform_west]
      week_contains_now [of platform_west] w
    by (simp add: week_window [OF r n(2)] q)
qed

text \<open>
  Claim C3, evaluated five hours west of UTC on 2025-11-04, 19:00 local time. The
  current month is November 2025 and the string \<open>2025-11-01\<close> denotes its first
  day; yet the month test rejects a record so dated, because the string is parsed as
  midnight UTC, which is 31 October local time. The record dated \<open>2025-12-01\<close> is
  accepted.
\<close>

theorem first_of_month_west_of_utc:
  "YearFromTime (LocalTime platform_west (Date_now platform_west)) = 2025 \<and>
   MonthFromTime (LocalTime platform_west (Date_now platform_west)) = 10 \<and>
   es_Date_parse ''2025-11-01'' = Some 1761955200000 \<and>
   YearFromTime 1761955200000 = 2025 \<and> MonthFromTime 1761955200000 = 10 \<and>
   DateFromTime 1761955200000 = 1 \<and>
   \<not> isInCurrentMonth_v2 platform_west (Some ''2025-11-01'') \<and>
   \<not> isInCurrentMonth_v3 platform_west (Some ''2025-11-01'') \<and>
   isInCurrentMonth_v2 platform_west (Some ''2025-12-01'') \<and>
   isInCurrentMonth_v3 platform_west (Some ''2025-12-01'')"
proof -
  have now: "YearFromTime (LocalTime platform_west (Date_now platform_west)) = 2025"
    "MonthFromTime (LocalTime platform_west (Date_now platform_west)) = 10"
    by code_simp+
  have p: "Date_parse platform_west ''2025-11-01'' = Some 1761955200000"
    by code_simp
  have f: "YearFromTime 1761955200000 = 2025" "MonthFromTime 1761955200000 = 10"
    "DateFromTime 1761955200000 = 1"
    by code_simp+
  have l: "MonthFromTime (LocalTime platform_west 1761955200000) = 9"
    by code_simp
  have r: "\<bar>Date_now platform_west\<bar> \<le> 8640000000000000"
    by code_simp
  have n: "''2025-11-01'' \<noteq> []" "''2025-12-01'' \<noteq> []"
    by simp_all
  have q: "Date_parse platform_west ''2025-12-01'' = Some 1764547200000"
    by code_simp
  have g: "YearFromTime (LocalTime platform_west 1764547200000) = 2025"
    "MonthFromTime (LocalTime platform_west 1764547200000) = 10"
    by code_simp+
  from p have "es_Date_parse ''2025-11-01'' = Some 1761955200000"
    by (simp add: platform_west_def)
  then show ?thesis
    using now f l g by (simp add: month_window [OF r n(1)] month_window [OF r n(2)] p q)
qed

end
